theory Spec2Isabelle
  imports Complex_Main
begin

section \<open>Python values shared by the services\<close>

text \<open>
  The services are Python. Exceptions are values of \<open>py_error\<close>; a call that can raise
  returns \<open>py_error + 'a\<close> with \<open>Inl\<close> for the exception. NumPy and Python floats are
  modelled as real numbers (no NaN, no infinity, no rounding); Python \<open>int\<close> is \<open>int\<close>.
\<close>

datatype py_error =
  IndexError | ValueError | ZeroDivisionError | KeyError | CvError | OSError | RuntimeError

text \<open>\<open>str(e)\<close> of an exception, as it is spliced into messages.\<close>

fun str_of_error :: "py_error \<Rightarrow> string" where
  "str_of_error IndexError = ''list index out of range''"
| "str_of_error ValueError = ''invalid value''"
| "str_of_error ZeroDivisionError = ''division by zero''"
| "str_of_error KeyError = ''key error''"
| "str_of_error CvError = ''OpenCV error''"
| "str_of_error OSError = ''os error''"
| "str_of_error RuntimeError = ''runtime error''"

text \<open>Python's \<open>int(x)\<close> on a float truncates towards zero.\<close>

definition py_int :: "real \<Rightarrow> int" where
  "py_int x = (if 0 \<le> x then \<lfloor>x\<rfloor> else \<lceil>x\<rceil>)"

text \<open>\<open>xs[i]\<close> for an index that is never negative: out of range raises \<open>IndexError\<close>.\<close>

definition py_index :: "'a list \<Rightarrow> nat \<Rightarrow> py_error + 'a" where
  "py_index xs i = (if i < length xs then Inr (xs ! i) else Inl IndexError)"

text \<open>Decimal digits of a natural number, for f-strings.\<close>

fun digit_char :: "nat \<Rightarrow> char" where
  "digit_char n = char_of (48 + n mod 10)"

function str_of_nat :: "nat \<Rightarrow> string" where
  "str_of_nat n = (if n < 10 then [digit_char n] else str_of_nat (n div 10) @ [digit_char n])"
  by pat_completeness auto
termination
  by (relation "measure id") auto

declare str_of_nat.simps [simp del]

definition str_of_int :: "int \<Rightarrow> string" where
  "str_of_int i = (if i < 0 then ''-'' @ str_of_nat (nat (- i)) else str_of_nat (nat i))"

section \<open>DefectDetectionService: decoding the model output\<close>

text \<open>
  A detection is the dictionary built in \<open>postprocess_detections\<close>:
  \<open>bbox\<close> is the list \<open>[x1, y1, x2, y2]\<close>.
\<close>

record detection =
  bbox :: "int list"
  confidence :: real
  class_id :: nat
  class_name :: string
  color :: "nat \<times> nat \<times> nat"

text \<open>
  The model output \<open>outputs[0]\<close>: an array of shape \<open>[1, C, N]\<close> (the source's comment:
  \<open>[1, 84, 8400]\<close> or similar); \<open>val t c j\<close> is the entry \<open>[0, c, j]\<close>.
\<close>

record tensor =
  chans :: nat
  anchors :: nat
  val :: "nat \<Rightarrow> nat \<Rightarrow> real"

text \<open>\<open>np.transpose(predictions, (0, 2, 1))[0]\<close>: one row of \<open>C\<close> numbers per anchor.\<close>

definition transposed_rows :: "tensor \<Rightarrow> real list list" where
  "transposed_rows t = map (\<lambda>j. map (\<lambda>c. val t c j) [0..<chans t]) [0..<anchors t]"

definition defect_class_names :: "(nat \<times> string) list" where
  "defect_class_names =
     [(0, ''short_circuit''), (1, ''open_circuit''), (2, ''missing_component''),
      (3, ''damaged_track''), (4, ''wrong_component''), (5, ''solder_defect''),
      (6, ''crack''), (7, ''scratch'')]"

definition defect_colors :: "(nat \<times> (nat \<times> nat \<times> nat)) list" where
  "defect_colors =
     [(0, (0, 0, 255)), (1, (255, 0, 0)), (2, (0, 255, 255)), (3, (255, 0, 255)),
      (4, (128, 0, 128)), (5, (0, 165, 255)), (6, (0, 255, 0)), (7, (255, 255, 0))]"

text \<open>\<open>np.argmax\<close>: the first index of the largest entry; an empty sequence raises.\<close>

fun argmax_from :: "nat \<Rightarrow> real \<Rightarrow> nat \<Rightarrow> real list \<Rightarrow> nat" where
  "argmax_from best bv i [] = best"
| "argmax_from best bv i (x # xs) =
     (if bv < x then argmax_from i x (Suc i) xs else argmax_from best bv (Suc i) xs)"

definition argmax :: "real list \<Rightarrow> py_error + nat" where
  "argmax xs = (case xs of [] \<Rightarrow> Inl ValueError | x # rest \<Rightarrow> Inr (argmax_from 0 x 1 rest))"

text \<open>The clamp of lines 137-140: \<open>max(0, min(v, bound))\<close>.\<close>

definition clamp_to :: "int \<Rightarrow> int \<Rightarrow> int" where
  "clamp_to bound v = max 0 (min v bound)"

text \<open>
  The body of the \<open>for detection in predictions[0]\<close> loop (lines 119-150) for one row:
  \<open>None\<close> when the row is filtered out, an exception when the row cannot be unpacked
  into four box numbers or has no class score.
\<close>

definition decode_row ::
  "int \<Rightarrow> int \<Rightarrow> real \<Rightarrow> real \<Rightarrow> real \<Rightarrow> real list \<Rightarrow> py_error + detection option" where
  "decode_row original_width original_height scale_x scale_y conf_threshold row =
     (if length row < 4 then Inl ValueError
      else
        let center_x = row ! 0; center_y = row ! 1; width = row ! 2; height = row ! 3;
            class_scores = drop 4 row
        in case argmax class_scores of
             Inl e \<Rightarrow> Inl e
           | Inr cid \<Rightarrow>
               let conf = class_scores ! cid in
               if conf_threshold \<le> conf \<and> cid < length defect_class_names then
                 let x1 = py_int ((center_x - width / 2) * scale_x);
                     y1 = py_int ((center_y - height / 2) * scale_y);
                     x2 = py_int ((center_x + width / 2) * scale_x);
                     y2 = py_int ((center_y + height / 2) * scale_y);
                     defect_name = (case map_of defect_class_names cid of
                                      Some n \<Rightarrow> n
                                    | None \<Rightarrow> ''defect_'' @ str_of_nat cid)
                 in Inr (Some \<lparr>bbox = [clamp_to original_width x1, clamp_to original_height y1,
                                        clamp_to original_width x2, clamp_to original_height y2],
                                confidence = conf,
                                class_id = cid,
                                class_name = defect_name,
                                color = (case map_of defect_colors cid of
                                           Some c \<Rightarrow> c
                                         | None \<Rightarrow> (255, 255, 255))\<rparr>)
               else Inr None)"

text \<open>The loop itself: detections are appended in row order; an exception ends it.\<close>

fun decode_rows ::
  "int \<Rightarrow> int \<Rightarrow> real \<Rightarrow> real \<Rightarrow> real \<Rightarrow> real list list \<Rightarrow> detection list
     \<Rightarrow> py_error + detection list" where
  "decode_rows ow oh sx sy thr [] detections = Inr detections"
| "decode_rows ow oh sx sy thr (row # rows) detections =
     (case decode_row ow oh sx sy thr row of
        Inl e \<Rightarrow> Inl e
      | Inr None \<Rightarrow> decode_rows ow oh sx sy thr rows detections
      | Inr (Some d) \<Rightarrow> decode_rows ow oh sx sy thr rows (detections @ [d]))"

text \<open>
  The library call \<open>cv2.dnn.NMSBoxes(boxes, scores, score_threshold, nms_threshold)\<close>
  is a parameter of the model: it returns the indices it keeps, or raises.
\<close>

type_synonym nms_boxes = "int list list \<Rightarrow> real list \<Rightarrow> real \<Rightarrow> real \<Rightarrow> py_error + nat list"

text \<open>\<open>[detections[i] for i in indices]\<close>.\<close>

fun select_indices :: "'a list \<Rightarrow> nat list \<Rightarrow> py_error + 'a list" where
  "select_indices xs [] = Inr []"
| "select_indices xs (i # is) =
     (case py_index xs i of
        Inl e \<Rightarrow> Inl e
      | Inr x \<Rightarrow> (case select_indices xs is of Inl e \<Rightarrow> Inl e | Inr rest \<Rightarrow> Inr (x # rest)))"

text \<open>Lines 152-165: the suppression step on the decoded candidates.\<close>

definition suppress :: "nms_boxes \<Rightarrow> real \<Rightarrow> detection list \<Rightarrow> py_error + detection list" where
  "suppress nms conf_threshold detections =
     (if 0 < length detections then
        (case nms (map bbox detections) (map confidence detections) conf_threshold (4 / 10) of
           Inl e \<Rightarrow> Inl e
         | Inr indices \<Rightarrow>
             if 0 < length indices then select_indices detections indices else Inr [])
      else Inr [])"

definition postprocess_detections ::
  "nms_boxes \<Rightarrow> tensor list \<Rightarrow> int \<times> int \<Rightarrow> int \<times> int \<Rightarrow> real \<Rightarrow> py_error + detection list" where
  "postprocess_detections nms outputs original_size input_size conf_threshold =
     (let original_width = fst original_size; original_height = snd original_size;
          input_width = fst input_size; input_height = snd input_size
      in case outputs of
           [] \<Rightarrow> Inl IndexError
         | predictions # _ \<Rightarrow>
             if input_width = 0 \<or> input_height = 0 then Inl ZeroDivisionError
             else
               (let scale_x = real_of_int original_width / real_of_int input_width;
                    scale_y = real_of_int original_height / real_of_int input_height
                in (case decode_rows original_width original_height scale_x scale_y
                           conf_threshold (transposed_rows predictions) [] of
                      Inl e \<Rightarrow> Inl e
                    | Inr detections \<Rightarrow> suppress nms conf_threshold detections)))"

text \<open>
  Modelled from the spec: \<open>cv2.dnn.NMSBoxes\<close> is an OpenCV routine, its body is not in
  \<open>src/\<close>. Section 4.2 step 5 describes it: sort the surviving candidates by confidence
  descending, repeatedly keep the highest-confidence remaining box and discard every
  other box whose overlap with it exceeds the threshold. As OpenCV documents the call,
  \<open>score_threshold\<close> first drops every box whose score is not above it, the sort is
  stable, a box is kept when its overlap with every box kept so far is at most
  \<open>nms_threshold\<close>, and the result is the list of kept indices in keep order. The
  overlap measure is a parameter here; \<open>rect_overlap\<close> below is OpenCV's.
\<close>

definition GetMaxScoreIndex :: "real list \<Rightarrow> real \<Rightarrow> (real \<times> nat) list" where
  "GetMaxScoreIndex scores threshold =
     sort_key (\<lambda>p. - fst p)
       (filter (\<lambda>p. threshold < fst p) (zip scores [0..<length scores]))"

fun NMSFast ::
  "(int list \<Rightarrow> int list \<Rightarrow> real) \<Rightarrow> real \<Rightarrow> int list list \<Rightarrow> nat list \<Rightarrow> nat list \<Rightarrow> nat list" where
  "NMSFast overlap nms_threshold bboxes indices [] = indices"
| "NMSFast overlap nms_threshold bboxes indices (idx # rest) =
     (if list_all (\<lambda>kept_idx. overlap (bboxes ! idx) (bboxes ! kept_idx) \<le> nms_threshold) indices
      then NMSFast overlap nms_threshold bboxes (indices @ [idx]) rest
      else NMSFast overlap nms_threshold bboxes indices rest)"

definition NMSBoxes_with :: "(int list \<Rightarrow> int list \<Rightarrow> real) \<Rightarrow> nms_boxes" where
  "NMSBoxes_with overlap bboxes scores score_threshold nms_threshold =
     (if length bboxes \<noteq> length scores \<or> score_threshold < 0 \<or> nms_threshold < 0
         \<or> \<not> list_all (\<lambda>b. length b = 4) bboxes
      then Inl CvError
      else Inr (NMSFast overlap nms_threshold bboxes []
                  (map snd (GetMaxScoreIndex scores score_threshold))))"

text \<open>
  OpenCV reads the four numbers of a box as \<open>(x, y, width, height)\<close>; the overlap of two
  rectangles is their intersection area over their union area, and \<open>1\<close> when both
  areas vanish.
\<close>

definition rect_area :: "int list \<Rightarrow> real" where
  "rect_area r = real_of_int (r ! 2) * real_of_int (r ! 3)"

definition rect_intersection :: "int list \<Rightarrow> int list \<Rightarrow> int list" where
  "rect_intersection a b =
     (let x1 = max (a ! 0) (b ! 0); y1 = max (a ! 1) (b ! 1);
          w = min (a ! 0 + a ! 2) (b ! 0 + b ! 2) - x1;
          h = min (a ! 1 + a ! 3) (b ! 1 + b ! 3) - y1
      in if w \<le> 0 \<or> h \<le> 0 then [0, 0, 0, 0] else [x1, y1, w, h])"

definition rect_overlap :: "int list \<Rightarrow> int list \<Rightarrow> real" where
  "rect_overlap a b =
     (let Aa = rect_area a; Ab = rect_area b in
      if Aa + Ab \<le> 0 then 1
      else (let Aab = rect_area (rect_intersection a b) in Aab / (Aa + Ab - Aab)))"

definition NMSBoxes :: nms_boxes where
  "NMSBoxes = NMSBoxes_with rect_overlap"

text \<open>
  The properties of a returned detection: every corner coordinate lies in the frame, and
  the corners are ordered.
\<close>

definition corners_in_frame :: "int \<Rightarrow> int \<Rightarrow> detection \<Rightarrow> bool" where
  "corners_in_frame W H d =
     (case bbox d of
        [x1, y1, x2, y2] \<Rightarrow>
          0 \<le> x1 \<and> x1 \<le> W \<and> 0 \<le> x2 \<and> x2 \<le> W \<and> 0 \<le> y1 \<and> y1 \<le> H \<and> 0 \<le> y2 \<and> y2 \<le> H
      | _ \<Rightarrow> False)"

definition corners_ordered :: "detection \<Rightarrow> bool" where
  "corners_ordered d = (case bbox d of [x1, y1, x2, y2] \<Rightarrow> x1 \<le> x2 \<and> y1 \<le> y2 | _ \<Rightarrow> False)"

text \<open>Every box width and height entry of the tensor (channels 2 and 3) is non-negative.\<close>

definition box_sizes_nonneg :: "tensor \<Rightarrow> bool" where
  "box_sizes_nonneg t = list_all (\<lambda>j. 0 \<le> val t 2 j \<and> 0 \<le> val t 3 j) [0..<anchors t]"

text \<open>Two synthetic model outputs with one anchor each, used to evaluate the decoder.\<close>

definition one_box_output :: tensor where
  "one_box_output = \<lparr>chans = 5, anchors = 1, val = (\<lambda>c j. [100, 100, 50, 50, 9 / 10] ! c)\<rparr>"

definition negative_width_output :: tensor where
  "negative_width_output =
     \<lparr>chans = 5, anchors = 1, val = (\<lambda>c j. [100, 100, - 50, 50, 9 / 10] ! c)\<rparr>"

section \<open>Suppression, element by element\<close>

text \<open>
  The same greedy pass written on the detections themselves instead of their indices:
  \<open>survivors\<close> is the score filter followed by the stable sort, \<open>keep_greedy\<close> the
  keep loop. \<open>well_kept\<close> says that every element of a keep list overlaps each earlier
  one by at most the threshold, and \<open>nms_rejects\<close> is the argument check of the call.
\<close>

fun keep_greedy ::
  "(int list \<Rightarrow> int list \<Rightarrow> real) \<Rightarrow> real \<Rightarrow> detection list \<Rightarrow> detection list \<Rightarrow> detection list" where
  "keep_greedy overlap t kept [] = kept"
| "keep_greedy overlap t kept (d # rest) =
     (if list_all (\<lambda>k. overlap (bbox d) (bbox k) \<le> t) kept
      then keep_greedy overlap t (kept @ [d]) rest
      else keep_greedy overlap t kept rest)"

fun kept_newest_first :: "(int list \<Rightarrow> int list \<Rightarrow> real) \<Rightarrow> real \<Rightarrow> detection list \<Rightarrow> bool" where
  "kept_newest_first overlap t [] = True"
| "kept_newest_first overlap t (d # older) =
     (list_all (\<lambda>k. overlap (bbox d) (bbox k) \<le> t) older \<and> kept_newest_first overlap t older)"

definition well_kept :: "(int list \<Rightarrow> int list \<Rightarrow> real) \<Rightarrow> real \<Rightarrow> detection list \<Rightarrow> bool" where
  "well_kept overlap t ks = kept_newest_first overlap t (rev ks)"

definition survivors :: "real \<Rightarrow> detection list \<Rightarrow> detection list" where
  "survivors thr ds = sort_key (\<lambda>d. - confidence d) (filter (\<lambda>d. thr < confidence d) ds)"

definition nms_rejects :: "real \<Rightarrow> detection list \<Rightarrow> bool" where
  "nms_rejects thr ds = (ds \<noteq> [] \<and> (thr < 0 \<or> \<not> list_all (\<lambda>d. length (bbox d) = 4) ds))"

text \<open>Two overlapping candidates of one class, the lower-confidence one first.\<close>

definition det_low :: detection where
  "det_low = \<lparr>bbox = [12, 12, 110, 110], confidence = 8 / 10, class_id = 0,
                class_name = ''short_circuit'', color = (0, 0, 255)\<rparr>"

definition det_high :: detection where
  "det_high = \<lparr>bbox = [10, 10, 110, 110], confidence = 9 / 10, class_id = 0,
                 class_name = ''short_circuit'', color = (0, 0, 255)\<rparr>"

section \<open>CameraService\<close>

text \<open>
  A frame is a NumPy image: \<open>frame.shape[:2]\<close> is \<open>(nrows f, ncols f)\<close> and
  \<open>pixel f y x\<close> is the entry at row \<open>y\<close>, column \<open>x\<close>.
\<close>

type_synonym color = "nat \<times> nat \<times> nat"

record frame =
  nrows :: nat
  ncols :: nat
  pixel :: "nat \<Rightarrow> nat \<Rightarrow> color"

text \<open>
  The slices \<open>frame[:, a:b]\<close> and \<open>frame[a:b, :]\<close> for \<open>0 \<le> a\<close> and \<open>0 \<le> b\<close>: Python
  clamps both bounds to the axis length.
\<close>

definition slice_cols :: "frame \<Rightarrow> nat \<Rightarrow> nat \<Rightarrow> frame" where
  "slice_cols f a b =
     \<lparr>nrows = nrows f, ncols = min b (ncols f) - min a (ncols f),
      pixel = (\<lambda>y x. pixel f y (x + min a (ncols f)))\<rparr>"

definition slice_rows :: "frame \<Rightarrow> nat \<Rightarrow> nat \<Rightarrow> frame" where
  "slice_rows f a b =
     \<lparr>nrows = min b (nrows f) - min a (nrows f), ncols = ncols f,
      pixel = (\<lambda>y x. pixel f (y + min a (nrows f)) x)\<rparr>"

text \<open>
  What the services call outside the repository, as one record of functions: OpenCV
  (\<open>cv2\<close>), the inference session, the operating system, the clock and Python's float
  formatting. A theorem that quantifies over the record holds for every behaviour of
  these calls.
\<close>

record runtime =
  interpolate :: "frame \<Rightarrow> nat \<Rightarrow> nat \<Rightarrow> nat \<Rightarrow> nat \<Rightarrow> color"
  rectangle :: "frame \<Rightarrow> int \<times> int \<Rightarrow> int \<times> int \<Rightarrow> color \<Rightarrow> int \<Rightarrow> frame"
  putText :: "frame \<Rightarrow> string \<Rightarrow> int \<times> int \<Rightarrow> real \<Rightarrow> color \<Rightarrow> int \<Rightarrow> frame"
  getTextSize :: "string \<Rightarrow> int \<times> int"
  cvtColor :: "frame \<Rightarrow> frame"
  imwrite :: "string \<Rightarrow> frame \<Rightarrow> py_error + bool"
  imencode_b64 :: "frame \<Rightarrow> int \<Rightarrow> py_error + string"
  dnn_NMSBoxes :: nms_boxes
  session_run :: "frame \<Rightarrow> py_error + tensor list"
  makedirs :: "string \<Rightarrow> py_error option"
  strftime :: string
  captures_dir :: string
  format_2f :: "real \<Rightarrow> string"

text \<open>
  Modelled from the spec: \<open>cv2.resize(src, (w, h))\<close> is an OpenCV routine, its body is
  not in \<open>src/\<close>. Section 4.1 says of it: resize to \<open>targetSize \<times> targetSize\<close>. The result
  has exactly the requested size, its pixels come from the interpolation, and OpenCV
  rejects an empty source and a requested size that is not positive.
\<close>

definition cv2_resize :: "runtime \<Rightarrow> frame \<Rightarrow> int \<times> int \<Rightarrow> py_error + frame" where
  "cv2_resize rt src dsize =
     (if nrows src = 0 \<or> ncols src = 0 then Inl CvError
      else if fst dsize \<le> 0 \<or> snd dsize \<le> 0 then Inl CvError
      else Inr \<lparr>nrows = nat (snd dsize), ncols = nat (fst dsize),
                pixel = interpolate rt src (nat (snd dsize)) (nat (fst dsize))\<rparr>)"

text \<open>\<open>CameraService.resize_to_square\<close> (lines 284-299).\<close>

definition resize_to_square :: "runtime \<Rightarrow> frame \<Rightarrow> int \<Rightarrow> py_error + frame" where
  "resize_to_square rt frame target =
     (let h = nrows frame; w = ncols frame;
          cropped = (if w > h
                     then (let start_x = (w - h) div 2 in slice_cols frame start_x (start_x + h))
                     else (let start_y = (h - w) div 2 in slice_rows frame start_y (start_y + w)))
      in cv2_resize rt cropped (target, target))"

text \<open>
  The centred square of side \<open>min w h\<close>, as the spec words it: cropped on the shorter
  dimension, the same margin (up to one pixel) on both sides of the longer one.
\<close>

definition center_crop :: "frame \<Rightarrow> frame" where
  "center_crop f =
     (let m = min (nrows f) (ncols f) in
      \<lparr>nrows = m, ncols = m,
       pixel = (\<lambda>y x. pixel f (y + (nrows f - m) div 2) (x + (ncols f - m) div 2))\<rparr>)"

text \<open>\<open>DefectDetectionService.draw_defect_detections\<close> (lines 167-210).\<close>

definition draw_one :: "runtime \<Rightarrow> frame \<Rightarrow> detection \<Rightarrow> py_error + frame" where
  "draw_one rt image_copy d =
     (case bbox d of
        [x1, y1, x2, y2] \<Rightarrow>
          (let boxed = rectangle rt image_copy (x1, y1) (x2, y2) (color d) 2;
               label = class_name d @ '': '' @ format_2f rt (confidence d);
               label_size = getTextSize rt label;
               backed = rectangle rt boxed (x1, y1 - snd label_size - 10)
                          (x1 + fst label_size, y1) (color d) (- 1);
               labelled = putText rt backed label (x1, y1 - 5) (6 / 10) (255, 255, 255) 2;
               size_info = ''Size: '' @ str_of_int (x2 - x1) @ ''x'' @ str_of_int (y2 - y1)
           in Inr (putText rt labelled size_info (x1, y2 + 20) (4 / 10) (color d) 1))
      | _ \<Rightarrow> Inl ValueError)"

fun draw_defect_detections :: "runtime \<Rightarrow> frame \<Rightarrow> detection list \<Rightarrow> py_error + frame" where
  "draw_defect_detections rt img [] = Inr img"
| "draw_defect_detections rt img (d # ds) =
     (case draw_one rt img d of
        Inl e \<Rightarrow> Inl e
      | Inr img' \<Rightarrow> draw_defect_detections rt img' ds)"

text \<open>
  \<open>DefectDetectionService.detect_defects_from_frame\<close> (lines 246-283); the scaling to
  \<open>[0, 1]\<close> and the change of layout before the session runs are part of \<open>session_run\<close>.
\<close>

definition detect_defects_from_frame ::
  "runtime \<Rightarrow> frame \<Rightarrow> real \<Rightarrow> py_error + (frame \<times> detection list)" where
  "detect_defects_from_frame rt frame conf_threshold =
     (let frame_rgb = cvtColor rt frame;
          original_height = int (nrows frame_rgb); original_width = int (ncols frame_rgb)
      in case cv2_resize rt frame_rgb (640, 640) of
           Inl e \<Rightarrow> Inl e
         | Inr resized_image \<Rightarrow>
             (case session_run rt resized_image of
                Inl e \<Rightarrow> Inl e
              | Inr outputs \<Rightarrow>
                  (case postprocess_detections (dnn_NMSBoxes rt) outputs
                          (original_width, original_height) (640, 640) conf_threshold of
                     Inl e \<Rightarrow> Inl e
                   | Inr detections \<Rightarrow>
                       (case draw_defect_detections rt frame_rgb detections of
                          Inl e \<Rightarrow> Inl e
                        | Inr result_image \<Rightarrow> Inr (result_image, detections)))))"

text \<open>
  The state of a \<open>CameraService\<close>: \<open>defect_detector\<close> is \<open>True\<close> when a detection service
  was loaded in \<open>__init__\<close> and \<open>False\<close> when the attribute is \<open>None\<close>.
\<close>

record camera_service =
  current_frame :: "frame option"
  detection_enabled :: bool
  defect_detector :: bool
  frame_count :: nat

text \<open>\<open>__init__\<close> (lines 23-50); \<open>model_loaded\<close> says whether the model file was there and loaded.\<close>

definition CameraService_init :: "bool \<Rightarrow> camera_service" where
  "CameraService_init model_loaded =
     \<lparr>current_frame = None, detection_enabled = True, defect_detector = model_loaded,
      frame_count = 0\<rparr>"

text \<open>One successful cycle of \<open>_capture_loop\<close> (lines 100-120) publishes the frame it read.\<close>

definition publish_frame :: "camera_service \<Rightarrow> frame \<Rightarrow> camera_service" where
  "publish_frame cam f = cam\<lparr>frame_count := frame_count cam + 1, current_frame := Some f\<rparr>"

definition get_current_frame :: "camera_service \<Rightarrow> frame option" where
  "get_current_frame cam = current_frame cam"

definition frame_to_base64 :: "runtime \<Rightarrow> frame \<Rightarrow> int \<Rightarrow> string" where
  "frame_to_base64 rt f quality = (case imencode_b64 rt f quality of Inl e \<Rightarrow> [] | Inr s \<Rightarrow> s)"

text \<open>
  An entry of a \<open>detections\<close> list in a capture result: a dictionary built by the
  detection service, or the three-key dictionary built by the fallback branch.
\<close>

datatype detection_entry =
  ModelDetection detection
| TestDetection string real "int list"

fun entry_class_name :: "detection_entry \<Rightarrow> string" where
  "entry_class_name (ModelDetection d) = class_name d"
| "entry_class_name (TestDetection n c b) = n"

fun entry_confidence :: "detection_entry \<Rightarrow> real" where
  "entry_confidence (ModelDetection d) = confidence d"
| "entry_confidence (TestDetection n c b) = c"

text \<open>
  \<open>detection_results\<close>: the dictionary with \<open>detections\<close>, \<open>num_defects\<close> and
  \<open>annotated_image\<close>, or the dictionary with the single key \<open>error\<close>.
\<close>

datatype detection_results =
  DetectionData "detection_entry list" nat frame
| DetectionError string

record analysis =
  total_defects :: nat
  defects_by_type :: "string \<rightharpoonup> nat"
  has_critical_defects :: bool

record capture_result =
  success :: bool
  message :: string
  filepath :: "string option"
  base64_image :: "string option"
  detection_results :: "detection_results option"
  analysis :: "analysis option"

definition failed_capture :: "string \<Rightarrow> capture_result" where
  "failed_capture msg =
     \<lparr>success = False, message = msg, filepath = None, base64_image = None,
      detection_results = None, analysis = None\<rparr>"

text \<open>
  The detection step of \<open>capture_image\<close> (lines 168-211): the processed frame and the
  detection results. The inner \<open>try\<close> turns an exception of the detector into the
  \<open>error\<close> dictionary; the fallback branch can raise only through its library calls.
\<close>

definition apply_detection_step ::
  "runtime \<Rightarrow> camera_service \<Rightarrow> bool \<Rightarrow> frame \<Rightarrow> frame \<times> detection_results option" where
  "apply_detection_step rt cam apply_detection square_frame =
     (if apply_detection \<and> detection_enabled cam \<and> defect_detector cam then
        (case detect_defects_from_frame rt square_frame (1 / 2) of
           Inr (annotated_frame, detections) \<Rightarrow>
             (annotated_frame,
              Some (DetectionData (map ModelDetection detections) (length detections)
                      annotated_frame))
         | Inl e \<Rightarrow> (square_frame, Some (DetectionError (str_of_error e))))
      else if apply_detection \<and> detection_enabled cam then
        (let h = int (nrows square_frame); w = int (ncols square_frame);
             boxed = rectangle rt square_frame (w div 4, h div 4) (3 * w div 4, 3 * h div 4)
                       (0, 255, 0) 2;
             test_frame = putText rt boxed ''TEST DETECTION'' (w div 4, h div 4 - 10) (7 / 10)
                            (0, 255, 0) 2
         in (test_frame,
             Some (DetectionData
                     [TestDetection ''test_defect'' (9 / 10)
                        [w div 4, h div 4, 3 * w div 4, 3 * h div 4]]
                     1 test_frame)))
      else (square_frame, None))"

text \<open>The body of the outer \<open>try\<close> of \<open>capture_image\<close> (lines 146-240).\<close>

definition capture_image_body ::
  "runtime \<Rightarrow> camera_service \<Rightarrow> string option \<Rightarrow> bool \<Rightarrow> py_error + capture_result" where
  "capture_image_body rt cam filename apply_detection =
     (case get_current_frame cam of
        None \<Rightarrow> Inr (failed_capture ''No frame available'')
      | Some frame \<Rightarrow>
          (let name = (case filename of
                         None \<Rightarrow> ''capture_'' @ strftime rt @ ''.jpg''
                       | Some n \<Rightarrow> n);
               path = captures_dir rt @ ''/'' @ name
           in case makedirs rt (captures_dir rt) of
                Some e \<Rightarrow> Inl e
              | None \<Rightarrow>
                  (case resize_to_square rt frame 640 of
                     Inl e \<Rightarrow> Inl e
                   | Inr square_frame \<Rightarrow>
                       (let step = apply_detection_step rt cam apply_detection square_frame;
                            processed_frame = fst step
                        in case imwrite rt path processed_frame of
                             Inl e \<Rightarrow> Inl e
                           | Inr saved \<Rightarrow>
                               if saved then
                                 Inr \<lparr>success = True, message = ''Image saved as '' @ name,
                                       filepath = Some path,
                                       base64_image = Some (frame_to_base64 rt processed_frame 80),
                                       detection_results = snd step, analysis = None\<rparr>
                               else Inr (failed_capture ''Failed to save image'')))))"

text \<open>
  \<open>CameraService.capture_image\<close> (lines 134-250): the body under its
  \<open>except Exception\<close> handler, which returns the failure dictionary.
\<close>

definition capture_image ::
  "runtime \<Rightarrow> camera_service \<Rightarrow> string option \<Rightarrow> bool \<Rightarrow> py_error + capture_result" where
  "capture_image rt cam filename apply_detection =
     (case capture_image_body rt cam filename apply_detection of
        Inl e \<Rightarrow> Inr (failed_capture (''Capture error: '' @ str_of_error e))
      | Inr result \<Rightarrow> Inr result)"

text \<open>\<open>defects_by_type[t] = defects_by_type.get(t, 0) + 1\<close> over the detections.\<close>

fun count_defects :: "(string \<rightharpoonup> nat) \<Rightarrow> detection_entry list \<Rightarrow> (string \<rightharpoonup> nat)" where
  "count_defects m [] = m"
| "count_defects m (d # ds) =
     count_defects
       (m(entry_class_name d \<mapsto> (case m (entry_class_name d) of None \<Rightarrow> 0 | Some c \<Rightarrow> c) + 1)) ds"

text \<open>\<open>CameraService.capture_with_detection_analysis\<close> (lines 318-349).\<close>

definition capture_with_detection_analysis ::
  "runtime \<Rightarrow> camera_service \<Rightarrow> string option \<Rightarrow> py_error + capture_result" where
  "capture_with_detection_analysis rt cam filename =
     (case capture_image rt cam filename True of
        Inl e \<Rightarrow> Inl e
      | Inr result \<Rightarrow>
          if success result \<and> detection_results result \<noteq> None then
            (case detection_results result of
               Some (DetectionData dets n img) \<Rightarrow>
                 Inr (result\<lparr>analysis :=
                        Some \<lparr>total_defects = length dets,
                              defects_by_type = count_defects Map.empty dets,
                              has_critical_defects =
                                list_ex (\<lambda>d. 8 / 10 < entry_confidence d) dets\<rparr>\<rparr>)
             | _ \<Rightarrow> Inr result)
          else Inr result)"

section \<open>A concrete runtime and concrete inputs\<close>

text \<open>
  A runtime in which every library call succeeds, with a nearest-neighbour resize, a
  one-pixel rectangle outline and a session that always returns \<open>one_box_output\<close>; and a
  uniform 640 by 480 frame published to a service with and without a loaded model.
  They serve to evaluate the definitions on concrete inputs.
\<close>

definition plain_runtime :: runtime where
  "plain_runtime =
     \<lparr>interpolate = (\<lambda>src dr dc y x. pixel src (y * nrows src div dr) (x * ncols src div dc)),
      rectangle = (\<lambda>f p1 p2 c t.
         f\<lparr>pixel := (\<lambda>y x. if (int x = fst p1 \<or> int x = fst p2) \<and> snd p1 \<le> int y \<and> int y \<le> snd p2
                              \<or> (int y = snd p1 \<or> int y = snd p2) \<and> fst p1 \<le> int x \<and> int x \<le> fst p2
                           then c else pixel f y x)\<rparr>),
      putText = (\<lambda>f s p sc c t. f),
      getTextSize = (\<lambda>s. (10 * int (length s), 12)),
      cvtColor = (\<lambda>f. f\<lparr>pixel := (\<lambda>y x. case pixel f y x of (b, g, r) \<Rightarrow> (r, g, b))\<rparr>),
      imwrite = (\<lambda>path f. Inr True),
      imencode_b64 = (\<lambda>f q. Inr ''AAAA''),
      dnn_NMSBoxes = NMSBoxes,
      session_run = (\<lambda>f. Inr [one_box_output]),
      makedirs = (\<lambda>d. None),
      strftime = ''20240101_120000'',
      captures_dir = ''./captures'',
      format_2f = (\<lambda>r. ''0.90'')\<rparr>"

definition gray_frame :: "nat \<Rightarrow> nat \<Rightarrow> frame" where
  "gray_frame w h = \<lparr>nrows = h, ncols = w, pixel = (\<lambda>y x. (128, 128, 128))\<rparr>"

definition result_detections :: "py_error + capture_result \<Rightarrow> detection_entry list" where
  "result_detections res =
     (case res of
        Inr r \<Rightarrow> (case detection_results r of Some (DetectionData ds n img) \<Rightarrow> ds | _ \<Rightarrow> [])
      | Inl e \<Rightarrow> [])"

definition camera_without_model :: camera_service where
  "camera_without_model = publish_frame (CameraService_init False) (gray_frame 640 480)"

definition camera_with_model :: camera_service where
  "camera_with_model = publish_frame (CameraService_init True) (gray_frame 640 480)"

definition one_box_detection :: detection where
  "one_box_detection =
     \<lparr>bbox = [75, 75, 125, 125], confidence = 9 / 10, class_id = 0,
      class_name = ''short_circuit'', color = (0, 0, 255)\<rparr>"

section \<open>WebSocketManager\<close>

text \<open>
  A websocket is identified by a number. The Python set \<open>active_connections\<close> is a list
  without duplicates: \<open>set_add\<close> and \<open>set_discard\<close> are \<open>add\<close> and \<open>discard\<close>; no property
  below depends on the iteration order.
\<close>

type_synonym websocket = nat

definition set_add :: "'a \<Rightarrow> 'a list \<Rightarrow> 'a list" where
  "set_add x xs = (if x \<in> set xs then xs else xs @ [x])"

definition set_discard :: "'a \<Rightarrow> 'a list \<Rightarrow> 'a list" where
  "set_discard x xs = removeAll x xs"

text \<open>\<open>CameraService.get_frame_info\<close> (lines 267-282), without the time of the last update.\<close>

datatype frame_info = NoFrame | ActiveFrame nat nat nat bool

definition get_frame_info :: "camera_service \<Rightarrow> frame_info" where
  "get_frame_info cam =
     (case get_current_frame cam of
        None \<Rightarrow> NoFrame
      | Some f \<Rightarrow> ActiveFrame (frame_count cam) (ncols f) (nrows f) (nrows f = ncols f))"

text \<open>
  The messages the manager builds: the welcome message of \<open>connect\<close> (client id, server
  time), a video frame (data, timestamp, frame info) and the camera status \<open>waiting\<close>
  (timestamp). Times are \<open>time.time()\<close> in milliseconds.
\<close>

datatype ws_message =
  Connection string nat
| VideoFrame string nat frame_info
| CameraStatus nat

text \<open>
  The asyncio side: the state of a \<open>_stream_loop\<close> task, the coroutines that
  \<open>asyncio.create_task\<close> has scheduled and the event loop has not yet run, and the
  two \<open>logger.info\<close> lines that mark the start and the stop of streaming.
\<close>

datatype task_state = Running | Done

datatype coroutine = StopStreaming

datatype log_event = StreamingStarted | StreamingStopped

text \<open>
  The three attributes of the \<open>WebSocketManager\<close>, then what the manager acts on: the
  event loop's stream-loop tasks (a handle is an index), the scheduled coroutines, the
  calls of \<open>send_text\<close> (socket and text) and the log.
\<close>

record manager =
  active_connections :: "websocket list"
  is_streaming :: bool
  stream_task :: "nat option"
  loop_tasks :: "task_state list"
  scheduled :: "coroutine list"
  send_calls :: "(websocket \<times> string) list"
  log_lines :: "log_event list"

definition WebSocketManager_init :: manager where
  "WebSocketManager_init =
     \<lparr>active_connections = [], is_streaming = False, stream_task = None, loop_tasks = [],
      scheduled = [], send_calls = [], log_lines = []\<rparr>"

text \<open>
  The transport, outside the repository: which sockets raise on \<open>accept\<close> and on
  \<open>send_text\<close>, and \<open>json.dumps\<close>.
\<close>

record transport =
  accept_raises :: "websocket \<Rightarrow> bool"
  send_raises :: "websocket \<Rightarrow> bool"
  dumps :: "ws_message \<Rightarrow> string"

text \<open>\<open>send_personal_message\<close> (lines 52-57): a failed send is logged and swallowed.\<close>

definition send_personal_message :: "transport \<Rightarrow> manager \<Rightarrow> ws_message \<Rightarrow> websocket \<Rightarrow> manager" where
  "send_personal_message tr m msg ws = m\<lparr>send_calls := send_calls m @ [(ws, dumps tr msg)]\<rparr>"

text \<open>\<open>start_streaming\<close> (lines 78-85) and \<open>stop_streaming\<close> (lines 87-100).\<close>

definition start_streaming :: "manager \<Rightarrow> manager" where
  "start_streaming m =
     (if is_streaming m then m
      else m\<lparr>is_streaming := True,
              stream_task := Some (length (loop_tasks m)),
              loop_tasks := loop_tasks m @ [Running],
              log_lines := log_lines m @ [StreamingStarted]\<rparr>)"

definition stop_streaming :: "manager \<Rightarrow> manager" where
  "stop_streaming m =
     (if \<not> is_streaming m then m
      else
        (let m1 = m\<lparr>is_streaming := False\<rparr>;
             m2 = (case stream_task m1 of
                     Some t \<Rightarrow> m1\<lparr>loop_tasks := (loop_tasks m1)[t := Done]\<rparr>
                   | None \<Rightarrow> m1)
         in m2\<lparr>log_lines := log_lines m2 @ [StreamingStopped]\<rparr>))"

text \<open>
  \<open>connect\<close> (lines 23-41), run without interruption; \<open>now\<close> is the server time. An
  exception of \<open>accept\<close> leaves the coroutine before anything is changed.
\<close>

definition connect ::
  "transport \<Rightarrow> nat \<Rightarrow> manager \<Rightarrow> websocket \<Rightarrow> string \<Rightarrow> py_error + manager" where
  "connect tr now m ws client_id =
     (if accept_raises tr ws then Inl RuntimeError
      else
        (let m1 = m\<lparr>active_connections := set_add ws (active_connections m)\<rparr>;
             m2 = send_personal_message tr m1 (Connection client_id now) ws
         in Inr (if \<not> is_streaming m2 then start_streaming m2 else m2)))"

text \<open>
  \<open>disconnect\<close> (lines 43-50): a plain function; \<open>asyncio.create_task\<close> only schedules
  \<open>stop_streaming\<close>.
\<close>

definition disconnect :: "manager \<Rightarrow> websocket \<Rightarrow> manager" where
  "disconnect m ws =
     (let m1 = m\<lparr>active_connections := set_discard ws (active_connections m)\<rparr>
      in if length (active_connections m1) = 0
         then m1\<lparr>scheduled := scheduled m1 @ [StopStreaming]\<rparr>
         else m1)"

text \<open>The event loop runs the coroutine that was scheduled first.\<close>

definition run_scheduled :: "manager \<Rightarrow> manager" where
  "run_scheduled m =
     (case scheduled m of
        [] \<Rightarrow> m
      | StopStreaming # rest \<Rightarrow> stop_streaming (m\<lparr>scheduled := rest\<rparr>))"

text \<open>
  What \<open>websocket_endpoint\<close> of \<open>main.py\<close> and the event loop do to the manager, one
  step at a time: a client connects (an exception of \<open>connect\<close> ends the handler and
  changes nothing), a client's handler ends with \<open>disconnect\<close>, or the event loop runs
  a scheduled coroutine.
\<close>

datatype event = Connect websocket string | Disconnect websocket | RunScheduled

fun apply_event :: "transport \<Rightarrow> manager \<Rightarrow> event \<Rightarrow> manager" where
  "apply_event tr m (Connect ws client_id) =
     (case connect tr 0 m ws client_id of Inl e \<Rightarrow> m | Inr m' \<Rightarrow> m')"
| "apply_event tr m (Disconnect ws) = disconnect m ws"
| "apply_event tr m RunScheduled = run_scheduled m"

definition run_events :: "transport \<Rightarrow> event list \<Rightarrow> manager \<Rightarrow> manager" where
  "run_events tr evs m = foldl (apply_event tr) m evs"

text \<open>A state is quiescent when no scheduled coroutine is waiting to run.\<close>

definition quiescent :: "manager \<Rightarrow> bool" where
  "quiescent m = (scheduled m = [])"

text \<open>
  \<open>broadcast\<close> (lines 59-76). \<open>broadcast_sends\<close> is the \<open>for\<close> loop over
  \<open>self.active_connections.copy()\<close>: it sends \<open>message_text\<close> to each socket of the copy
  and collects the sockets whose send raised.
\<close>

fun broadcast_sends ::
  "transport \<Rightarrow> string \<Rightarrow> websocket list \<Rightarrow> manager \<Rightarrow> websocket list
     \<Rightarrow> manager \<times> websocket list" where
  "broadcast_sends tr message_text [] m disconnected = (m, disconnected)"
| "broadcast_sends tr message_text (ws # rest) m disconnected =
     broadcast_sends tr message_text rest
       (m\<lparr>send_calls := send_calls m @ [(ws, message_text)]\<rparr>)
       (if send_raises tr ws then set_add ws disconnected else disconnected)"

definition broadcast :: "transport \<Rightarrow> manager \<Rightarrow> ws_message \<Rightarrow> manager" where
  "broadcast tr m msg =
     (if active_connections m = [] then m
      else
        (let message_text = dumps tr msg;
             pass = broadcast_sends tr message_text (active_connections m) m [];
             m1 = fst pass; disconnected = snd pass
         in m1\<lparr>active_connections := foldl (\<lambda>conns ws. set_discard ws conns)
                                         (active_connections m1) disconnected\<rparr>))"

text \<open>
  \<open>_stream_loop\<close> (lines 102-147). What one cycle meets: whether the capture thread has
  published a new frame since the last cycle, which sends raise, by how many
  milliseconds the cycle overruns its \<open>asyncio.sleep(0.1)\<close>, and what the other
  coroutines do to the manager while the cycle is suspended.
\<close>

record cycle_input =
  published :: "frame option"
  failing :: "websocket \<Rightarrow> bool"
  overrun :: nat
  interleaved :: "manager \<Rightarrow> manager"

text \<open>
  The loop's state: the manager, the camera service, the local \<open>camera_wait_count\<close>,
  the clock in milliseconds, and the messages this run of the loop has passed to
  \<open>broadcast\<close>.
\<close>

record streamer =
  mgr :: manager
  camera :: camera_service
  camera_wait_count :: nat
  clock :: nat
  pushed :: "ws_message list"

definition push :: "(ws_message \<Rightarrow> string) \<Rightarrow> cycle_input \<Rightarrow> streamer \<Rightarrow> ws_message \<Rightarrow> streamer" where
  "push to_json c s msg =
     s\<lparr>mgr := broadcast \<lparr>accept_raises = (\<lambda>ws. False), send_raises = failing c,
                           dumps = to_json\<rparr> (mgr s) msg,
       pushed := pushed s @ [msg]\<rparr>"

definition sleep_tenth :: "cycle_input \<Rightarrow> streamer \<Rightarrow> streamer" where
  "sleep_tenth c s = s\<lparr>mgr := interleaved c (mgr s), clock := clock s + 100 + overrun c\<rparr>"

text \<open>One pass through the body of the \<open>while\<close> loop; an exception leaves the loop.\<close>

definition stream_cycle ::
  "runtime \<Rightarrow> (ws_message \<Rightarrow> string) \<Rightarrow> cycle_input \<Rightarrow> streamer \<Rightarrow> py_error + streamer" where
  "stream_cycle rt to_json c s0 =
     (let s = (case published c of
                 None \<Rightarrow> s0
               | Some f \<Rightarrow> s0\<lparr>camera := publish_frame (camera s0) f\<rparr>)
      in case get_current_frame (camera s) of
           Some frame \<Rightarrow>
             (let s1 = s\<lparr>camera_wait_count := 0\<rparr> in
              case resize_to_square rt frame 640 of
                Inl e \<Rightarrow> Inl e
              | Inr square_frame \<Rightarrow>
                  (let frame_base64 = frame_to_base64 rt square_frame 75 in
                   Inr (sleep_tenth c
                          (if frame_base64 \<noteq> []
                           then push to_json c s1
                                  (VideoFrame frame_base64 (clock s1) (get_frame_info (camera s1)))
                           else s1))))
         | None \<Rightarrow>
             (let s1 = s\<lparr>camera_wait_count := camera_wait_count s + 1\<rparr> in
              Inr (sleep_tenth c
                     (if camera_wait_count s1 mod 10 = 1
                      then push to_json c s1 (CameraStatus (clock s1))
                      else s1))))"

text \<open>
  The \<open>while\<close> loop over the cycles it meets. It ends when the condition fails, when a
  cycle raises (the handler logs the exception), or, cancelled, when the cycles end.
\<close>

fun stream_cycles ::
  "runtime \<Rightarrow> (ws_message \<Rightarrow> string) \<Rightarrow> cycle_input list \<Rightarrow> streamer \<Rightarrow> streamer" where
  "stream_cycles rt to_json [] s = s"
| "stream_cycles rt to_json (c # cs) s =
     (if is_streaming (mgr s) \<and> active_connections (mgr s) \<noteq> [] then
        (case stream_cycle rt to_json c s of
           Inl e \<Rightarrow> s
         | Inr s' \<Rightarrow> stream_cycles rt to_json cs s')
      else s)"

text \<open>\<open>_stream_loop\<close> from its first line: the counter starts at 0.\<close>

definition stream_loop ::
  "runtime \<Rightarrow> (ws_message \<Rightarrow> string) \<Rightarrow> cycle_input list \<Rightarrow> manager \<Rightarrow> camera_service \<Rightarrow> nat
     \<Rightarrow> streamer" where
  "stream_loop rt to_json cycles m cam t0 =
     stream_cycles rt to_json cycles
       \<lparr>mgr = m, camera = cam, camera_wait_count = 0, clock = t0, pushed = []\<rparr>"

text \<open>The timestamps of the \<open>waiting\<close> messages in a list of pushed messages, in order.\<close>

fun waiting_times :: "ws_message list \<Rightarrow> nat list" where
  "waiting_times [] = []"
| "waiting_times (CameraStatus t # ms) = t # waiting_times ms"
| "waiting_times (_ # ms) = waiting_times ms"

text \<open>A transport on which nothing raises, and one on which socket 2 cannot be sent to.\<close>

definition plain_transport :: transport where
  "plain_transport =
     \<lparr>accept_raises = (\<lambda>ws. False), send_raises = (\<lambda>ws. False),
      dumps = (\<lambda>msg. case msg of
                        Connection c t \<Rightarrow> ''connection''
                      | VideoFrame d t i \<Rightarrow> ''video_frame:'' @ d
                      | CameraStatus t \<Rightarrow> ''camera_status'')\<rparr>"

definition lossy_transport :: transport where
  "lossy_transport = plain_transport\<lparr>send_raises := (\<lambda>ws. ws = 2)\<rparr>"

text \<open>
  The camera as the next cycle sees it, and the invariant of the loop on its \<open>waiting\<close>
  messages: their timestamps are at least 1000 ms apart and, while no frame has been
  published, the counter determines how many there are and how long ago the last was.
\<close>

definition camera_after :: "cycle_input \<Rightarrow> camera_service \<Rightarrow> camera_service" where
  "camera_after c cam = (case published c of None \<Rightarrow> cam | Some f \<Rightarrow> publish_frame cam f)"

definition waiting_inv :: "streamer \<Rightarrow> bool" where
  "waiting_inv s =
     (sorted_wrt (\<lambda>a b. a + 1000 \<le> b) (waiting_times (pushed s)) \<and>
      (current_frame (camera s) = None \<longrightarrow>
         (camera_wait_count s = 0 \<longrightarrow> waiting_times (pushed s) = []) \<and>
         (0 < camera_wait_count s \<longrightarrow>
            10 * length (waiting_times (pushed s)) + (camera_wait_count s - 1) mod 10
              = camera_wait_count s + 9 \<and>
            (\<forall>t \<in> set (waiting_times (pushed s)).
               t + 100 * ((camera_wait_count s - 1) mod 10 + 1) \<le> clock s))))"

text \<open>
  A manager is consistent when it is quiescent and streams iff a connection is
  registered. \<open>detach_settled\<close> is a \<open>disconnect\<close> whose scheduled coroutine runs before
  anything else does.
\<close>

definition consistent :: "manager \<Rightarrow> bool" where
  "consistent m = (quiescent m \<and> (is_streaming m \<longleftrightarrow> active_connections m \<noteq> []))"

definition detach_settled :: "manager \<Rightarrow> websocket \<Rightarrow> manager" where
  "detach_settled m ws = run_scheduled (disconnect m ws)"

text \<open>Managers and cycles used to evaluate the definitions.\<close>

definition one_client_streaming :: manager where
  "one_client_streaming = run_events plain_transport [Connect 1 ''a''] WebSocketManager_init"

definition three_clients :: manager where
  "three_clients =
     run_events plain_transport [Connect 1 ''a'', Connect 2 ''b'', Connect 3 ''c'']
       WebSocketManager_init"

definition idle_cycle :: cycle_input where
  "idle_cycle =
     \<lparr>published = None, failing = (\<lambda>ws. False), overrun = 0, interleaved = (\<lambda>m. m)\<rparr>"

definition eleven_idle_cycles :: "cycle_input list" where
  "eleven_idle_cycles =
     [idle_cycle, idle_cycle, idle_cycle, idle_cycle, idle_cycle, idle_cycle,
      idle_cycle, idle_cycle, idle_cycle, idle_cycle, idle_cycle]"

chapter \<open>Properties\<close>

section \<open>Decoded detections lie in the frame\<close>

lemma py_int_mono: "x \<le> y \<Longrightarrow> py_int x \<le> py_int y"
proof -
  assume xy: "x \<le> y"
  show ?thesis
  proof (cases "0 \<le> x")
    case True
    with xy show ?thesis by (simp add: py_int_def floor_mono)
  next
    case False
    show ?thesis
    proof (cases "0 \<le> y")
      case True
      from False have "py_int x \<le> 0" by (simp add: py_int_def ceiling_le_zero)
      moreover from True have "0 \<le> py_int y" by (simp add: py_int_def)
      ultimately show ?thesis by linarith
    next
      case ny: False
      with False xy show ?thesis by (simp add: py_int_def ceiling_mono)
    qed
  qed
qed

lemma clamp_to_bounds: "0 \<le> b \<Longrightarrow> 0 \<le> clamp_to b v \<and> clamp_to b v \<le> b"
  by (simp add: clamp_to_def)

lemma clamp_to_mono: "u \<le> v \<Longrightarrow> clamp_to b u \<le> clamp_to b v"
  by (simp add: clamp_to_def)

lemma decode_row_Some:
  assumes "decode_row ow oh sx sy thr row = Inr (Some d)" and "0 \<le> ow" and "0 \<le> oh"
  shows "corners_in_frame ow oh d \<and> thr \<le> confidence d"
  using assms clamp_to_bounds[of ow] clamp_to_bounds[of oh]
  by (auto simp: decode_row_def Let_def corners_in_frame_def split: if_splits sum.splits)

lemma decode_row_ordered:
  assumes "decode_row ow oh sx sy thr row = Inr (Some d)"
    and "0 \<le> sx" and "0 \<le> sy" and "0 \<le> row ! 2" and "0 \<le> row ! 3"
  shows "corners_ordered d"
proof -
  have x: "(row ! 0 - row ! 2 / 2) * sx \<le> (row ! 0 + row ! 2 / 2) * sx"
    using assms(2,4) by (intro mult_right_mono) auto
  have y: "(row ! 1 - row ! 3 / 2) * sy \<le> (row ! 1 + row ! 3 / 2) * sy"
    using assms(3,5) by (intro mult_right_mono) auto
  show ?thesis
    using assms(1) clamp_to_mono[OF py_int_mono[OF x], of ow] clamp_to_mono[OF py_int_mono[OF y], of oh]
    by (auto simp: decode_row_def Let_def corners_ordered_def split: if_splits sum.splits)
qed

lemma decode_rows_set:
  assumes "decode_rows ow oh sx sy thr rows acc = Inr ds" and "d \<in> set ds"
  shows "d \<in> set acc \<or> (\<exists>row \<in> set rows. decode_row ow oh sx sy thr row = Inr (Some d))"
  using assms
proof (induction rows arbitrary: acc)
  case Nil
  then show ?case by simp
next
  case (Cons row rows)
  show ?case
  proof (cases "decode_row ow oh sx sy thr row")
    case (Inl e)
    with Cons.prems show ?thesis by simp
  next
    case (Inr r)
    show ?thesis
    proof (cases r)
      case None
      with Inr Cons.prems Cons.IH[of acc] show ?thesis by auto
    next
      case (Some d')
      with Inr Cons.prems Cons.IH[of "acc @ [d']"] show ?thesis by auto
    qed
  qed
qed

lemma select_indices_set:
  "select_indices xs is = Inr ys \<Longrightarrow> set ys \<subseteq> set xs"
  by (induction "is" arbitrary: ys) (auto simp: py_index_def split: if_splits sum.splits)

lemma suppress_set: "suppress nms thr ds = Inr out \<Longrightarrow> set out \<subseteq> set ds"
  by (auto simp: suppress_def split: if_splits sum.splits dest: select_indices_set)

lemma transposed_rows_nonneg:
  assumes "box_sizes_nonneg t" and "row \<in> set (transposed_rows t)" and "4 \<le> length row"
  shows "0 \<le> row ! 2 \<and> 0 \<le> row ! 3"
proof -
  from assms(2) obtain j where j: "j < anchors t"
    and row: "row = map (\<lambda>c. val t c j) [0..<chans t]"
    by (auto simp: transposed_rows_def)
  from row assms(3) have c: "4 \<le> chans t" by simp
  have nth: "row ! k = val t k j" if "k < chans t" for k
    unfolding row using that by simp
  have "row ! 2 = val t 2 j" using c by (intro nth) simp
  moreover have "row ! 3 = val t 3 j" using c by (intro nth) simp
  moreover have "0 \<le> val t 2 j \<and> 0 \<le> val t 3 j"
    using assms(1) j by (simp add: box_sizes_nonneg_def list_all_iff)
  ultimately show ?thesis by simp
qed

lemma decode_row_length: "decode_row ow oh sx sy thr row = Inr r \<Longrightarrow> 4 \<le> length row"
  by (auto simp: decode_row_def split: if_splits)


lemmas decode_eval =
  postprocess_detections_def transposed_rows_def upt_rec decode_row_def argmax_def
  defect_class_names_def defect_colors_def py_int_def clamp_to_def suppress_def
  NMSBoxes_def NMSBoxes_with_def GetMaxScoreIndex_def py_index_def Let_def
  corners_in_frame_def corners_ordered_def box_sizes_nonneg_def

text \<open>
  Claim C1, as the code has it. For every model output, every frame size with
  \<open>0 \<le> W\<close> and \<open>0 \<le> H\<close> and every suppression routine, each detection that
  \<open>postprocess_detections\<close> returns has all four corner coordinates inside
  \<open>[0, W] \<times> [0, H]\<close> and a confidence not below the threshold. The corners are
  ordered (\<open>x1 \<le> x2\<close>, \<open>y1 \<le> y2\<close>) when the input size is positive and every box
  width and height entry of the tensor is non-negative.
\<close>

theorem postprocess_detections_boxes:
  assumes "postprocess_detections nms (t # ts) (W, H) (iw, ih) thr = Inr ds"
    and "d \<in> set ds" and "0 \<le> W" and "0 \<le> H"
  shows "corners_in_frame W H d \<and> thr \<le> confidence d \<and>
         (0 < iw \<and> 0 < ih \<and> box_sizes_nonneg t \<longrightarrow> corners_ordered d)"
proof -
  define sx where "sx = real_of_int W / real_of_int iw"
  define sy where "sy = real_of_int H / real_of_int ih"
  from assms(1) obtain cands where
    dec: "decode_rows W H sx sy thr (transposed_rows t) [] = Inr cands"
    and sup: "suppress nms thr cands = Inr ds"
    by (auto simp: postprocess_detections_def Let_def sx_def sy_def split: if_splits sum.splits)
  from sup assms(2) have "d \<in> set cands" using suppress_set by blast
  with dec obtain row where row: "row \<in> set (transposed_rows t)"
    and dr: "decode_row W H sx sy thr row = Inr (Some d)"
    using decode_rows_set by fastforce
  have a: "corners_in_frame W H d \<and> thr \<le> confidence d"
    using decode_row_Some[OF dr assms(3,4)] .
  have b: "corners_ordered d" if h: "0 < iw \<and> 0 < ih \<and> box_sizes_nonneg t"
  proof -
    have "0 \<le> sx" "0 \<le> sy" using h assms(3,4) by (simp_all add: sx_def sy_def)
    moreover have "0 \<le> row ! 2 \<and> 0 \<le> row ! 3"
      using transposed_rows_nonneg h row decode_row_length[OF dr] by blast
    ultimately show ?thesis using decode_row_ordered[OF dr] by blast
  qed
  from a b show ?thesis by blast
qed


theorem postprocess_detections_boxes_witness:
  "postprocess_detections NMSBoxes [one_box_output] (640, 640) (640, 640) (1 / 2) =
     Inr [\<lparr>bbox = [75, 75, 125, 125], confidence = 9 / 10, class_id = 0,
            class_name = ''short_circuit'', color = (0, 0, 255)\<rparr>] \<and>
   box_sizes_nonneg one_box_output \<and>
   corners_in_frame 640 640
     \<lparr>bbox = [75, 75, 125, 125], confidence = 9 / 10, class_id = 0,
        class_name = ''short_circuit'', color = (0, 0, 255)\<rparr> \<and>
   corners_ordered
     \<lparr>bbox = [75, 75, 125, 125], confidence = 9 / 10, class_id = 0,
        class_name = ''short_circuit'', color = (0, 0, 255)\<rparr>"
proof -
  let ?d = "\<lparr>bbox = [75, 75, 125, 125], confidence = 9 / 10, class_id = 0,
              class_name = ''short_circuit'', color = (0, 0, 255)\<rparr>"
  have run: "postprocess_detections NMSBoxes [one_box_output] (640, 640) (640, 640) (1 / 2)
               = Inr [?d]"
    by (simp add: decode_eval one_box_output_def)
  have nn: "box_sizes_nonneg one_box_output"
    by (simp add: box_sizes_nonneg_def one_box_output_def upt_rec)
  from postprocess_detections_boxes [OF run, of ?d] nn run show ?thesis by simp
qed

text \<open>
  Claim C1 as stated fails: a model output whose box width entry is negative passes the
  confidence filter and is returned with \<open>x1 = 125 > x2 = 75\<close>; the clamp keeps each
  coordinate in the frame but does not order the corners.
\<close>

theorem postprocess_detections_negative_width_counterexample:
  "postprocess_detections NMSBoxes [negative_width_output] (640, 640) (640, 640) (1 / 2) =
     Inr [\<lparr>bbox = [125, 75, 75, 125], confidence = 9 / 10, class_id = 0,
            class_name = ''short_circuit'', color = (0, 0, 255)\<rparr>] \<and>
   \<not> corners_ordered
     \<lparr>bbox = [125, 75, 75, 125], confidence = 9 / 10, class_id = 0,
        class_name = ''short_circuit'', color = (0, 0, 255)\<rparr>"
  by (simp add: decode_eval negative_width_output_def)

section \<open>Suppression is idempotent\<close>

lemma well_kept_snoc:
  "well_kept ov t (ks @ [d]) = (list_all (\<lambda>k. ov (bbox d) (bbox k) \<le> t) ks \<and> well_kept ov t ks)"
  by (simp add: well_kept_def list_all_iff)

lemma kept_newest_first_suffix:
  "kept_newest_first ov t (xs @ ys) \<Longrightarrow> kept_newest_first ov t ys"
  by (induction xs) auto

lemma well_kept_prefix: "well_kept ov t (xs @ ys) \<Longrightarrow> well_kept ov t xs"
  by (simp add: well_kept_def kept_newest_first_suffix)

lemma keep_greedy_well_kept:
  "well_kept ov t kept \<Longrightarrow> well_kept ov t (keep_greedy ov t kept xs)"
  by (induction xs arbitrary: kept) (auto simp: well_kept_snoc)

lemma keep_greedy_fixed:
  "well_kept ov t (kept @ ys) \<Longrightarrow> keep_greedy ov t kept ys = kept @ ys"
proof (induction ys arbitrary: kept)
  case Nil
  then show ?case by simp
next
  case (Cons y ys)
  from Cons.prems have all: "well_kept ov t ((kept @ [y]) @ ys)" by simp
  then have "well_kept ov t (kept @ [y])" by (rule well_kept_prefix)
  then have "list_all (\<lambda>k. ov (bbox y) (bbox k) \<le> t) kept" by (simp add: well_kept_snoc)
  with Cons.IH[OF all] show ?case by simp
qed

lemma keep_greedy_set: "set (keep_greedy ov t kept xs) \<subseteq> set kept \<union> set xs"
proof (induction xs arbitrary: kept)
  case Nil
  then show ?case by simp
next
  case (Cons x xs)
  show ?case using Cons.IH[of "kept @ [x]"] Cons.IH[of kept] by auto
qed

lemma keep_greedy_sorted:
  "sorted (map f (kept @ xs)) \<Longrightarrow> sorted (map f (keep_greedy ov t kept xs))"
proof (induction xs arbitrary: kept)
  case Nil
  then show ?case by simp
next
  case (Cons x xs)
  from Cons.prems have "sorted (map f (kept @ xs))" by (auto simp: sorted_append)
  moreover from Cons.prems have "sorted (map f ((kept @ [x]) @ xs))" by simp
  ultimately show ?case using Cons.IH by auto
qed

lemma survivors_fixed:
  assumes "set xs \<subseteq> set (survivors thr ds)" and "sorted (map (\<lambda>d. - confidence d) xs)"
  shows "survivors thr xs = xs"
proof -
  from assms(1) have "\<forall>d \<in> set xs. thr < confidence d" by (auto simp: survivors_def)
  then have "filter (\<lambda>d. thr < confidence d) xs = xs" by (simp add: filter_id_conv)
  with assms(2) show ?thesis by (simp add: survivors_def sort_key_id_if_sorted)
qed

lemma keep_greedy_survivors_idem:
  "keep_greedy ov t [] (survivors thr (keep_greedy ov t [] (survivors thr ds)))
     = keep_greedy ov t [] (survivors thr ds)"
proof -
  let ?S = "survivors thr ds"
  let ?out = "keep_greedy ov t [] ?S"
  have "sorted (map (\<lambda>d. - confidence d) ?S)" by (simp add: survivors_def)
  then have "sorted (map (\<lambda>d. - confidence d) ?out)" by (intro keep_greedy_sorted) simp
  moreover have "set ?out \<subseteq> set ?S" using keep_greedy_set[of ov t "[]" ?S] by simp
  ultimately have "survivors thr ?out = ?out" by (rule survivors_fixed[rotated])
  moreover have "well_kept ov t ?out" by (intro keep_greedy_well_kept) (simp add: well_kept_def)
  then have "keep_greedy ov t [] ?out = ?out" using keep_greedy_fixed[of ov t "[]" ?out] by simp
  ultimately show ?thesis by simp
qed


lemma select_indices_map:
  "\<forall>i \<in> set idxs. i < length xs \<Longrightarrow> select_indices xs idxs = Inr (map ((!) xs) idxs)"
  by (induction idxs) (auto simp: py_index_def)

lemma map_insort_key:
  assumes "\<forall>y \<in> set (x # xs). f y = h (g y)"
  shows "map g (insort_key f x xs) = insort_key h (g x) (map g xs)"
  using assms by (induction xs) auto

lemma map_sort_key:
  assumes "\<forall>y \<in> set xs. f y = h (g y)"
  shows "map g (sort_key f xs) = sort_key h (map g xs)"
  using assms
proof (induction xs)
  case Nil
  then show ?case by simp
next
  case (Cons x xs)
  then have "map g (insort_key f x (sort_key f xs)) = insort_key h (g x) (map g (sort_key f xs))"
    by (intro map_insort_key) auto
  with Cons show ?case by simp
qed

lemma zip_scores:
  "zip (map confidence ds) [0..<length ds] = map (\<lambda>i. (confidence (ds ! i), i)) [0..<length ds]"
  by (rule nth_equalityI) simp_all

lemma GetMaxScoreIndex_range:
  "i \<in> set (map snd (GetMaxScoreIndex (map confidence ds) thr)) \<Longrightarrow> i < length ds"
  by (auto simp: GetMaxScoreIndex_def zip_scores)

lemma GetMaxScoreIndex_survivors:
  "map ((!) ds) (map snd (GetMaxScoreIndex (map confidence ds) thr)) = survivors thr ds"
proof -
  let ?ps = "map (\<lambda>i. (confidence (ds ! i), i)) [0..<length ds]"
  let ?g = "\<lambda>p. ds ! snd p"
  let ?fs = "filter (\<lambda>p. thr < fst p) ?ps"
  have key: "\<forall>p \<in> set ?fs. - fst p = - confidence (?g p)" by auto
  have "map ?g (sort_key (\<lambda>p. - fst p) ?fs) = sort_key (\<lambda>d. - confidence d) (map ?g ?fs)"
    using key by (rule map_sort_key)
  moreover have "map ?g ?fs = filter (\<lambda>d. thr < confidence d) (map ?g ?ps)"
    by (simp add: filter_map comp_def)
  moreover have "map ?g ?ps = ds" by (simp add: comp_def map_nth)
  ultimately show ?thesis by (simp add: GetMaxScoreIndex_def zip_scores survivors_def comp_def)
qed

lemma NMSFast_range:
  "\<forall>i \<in> set kept \<union> set idxs. i < n \<Longrightarrow> \<forall>i \<in> set (NMSFast ov t boxes kept idxs). i < n"
proof (induction idxs arbitrary: kept)
  case Nil
  then show ?case by simp
next
  case (Cons idx idxs)
  show ?case using Cons.IH[of "kept @ [idx]"] Cons.IH[of kept] Cons.prems by auto
qed

lemma NMSFast_keep_greedy:
  assumes "\<forall>i \<in> set kept \<union> set idxs. i < length ds"
  shows "map ((!) ds) (NMSFast ov t (map bbox ds) kept idxs)
           = keep_greedy ov t (map ((!) ds) kept) (map ((!) ds) idxs)"
  using assms
proof (induction idxs arbitrary: kept)
  case Nil
  then show ?case by simp
next
  case (Cons idx idxs)
  have test: "list_all (\<lambda>k. ov (map bbox ds ! idx) (map bbox ds ! k) \<le> t) kept
          = list_all (\<lambda>d. ov (bbox (ds ! idx)) (bbox d) \<le> t) (map ((!) ds) kept)"
    using Cons.prems by (auto simp: list_all_iff)
  show ?case
  proof (cases "list_all (\<lambda>k. ov (map bbox ds ! idx) (map bbox ds ! k) \<le> t) kept")
    case True
    with test Cons.IH[of "kept @ [idx]"] Cons.prems show ?thesis by simp
  next
    case False
    with test Cons.IH[of kept] Cons.prems show ?thesis by simp
  qed
qed

lemma suppress_keep_greedy:
  "suppress (NMSBoxes_with ov) thr ds =
     (if nms_rejects thr ds then Inl CvError
      else Inr (keep_greedy ov (4 / 10) [] (survivors thr ds)))"
proof (cases "ds = []")
  case True
  then show ?thesis by (simp add: suppress_def nms_rejects_def survivors_def)
next
  case False
  let ?idxs = "map snd (GetMaxScoreIndex (map confidence ds) thr)"
  let ?kept = "NMSFast ov (4 / 10) (map bbox ds) [] ?idxs"
  have r: "\<forall>i \<in> set [] \<union> set ?idxs. i < length ds"
    using GetMaxScoreIndex_range[of _ ds thr] by simp
  have k: "\<forall>i \<in> set ?kept. i < length ds" using NMSFast_range[OF r] .
  have m: "map ((!) ds) ?kept = keep_greedy ov (4 / 10) [] (survivors thr ds)"
  proof -
    have "map ((!) ds) ?kept = keep_greedy ov (4 / 10) (map ((!) ds) []) (map ((!) ds) ?idxs)"
      by (rule NMSFast_keep_greedy[OF r])
    then show ?thesis unfolding GetMaxScoreIndex_survivors by simp
  qed
  have sel: "select_indices ds ?kept = Inr (keep_greedy ov (4 / 10) [] (survivors thr ds))"
    using select_indices_map[OF k] m by simp
  show ?thesis
  proof (cases "nms_rejects thr ds")
    case True
    with False show ?thesis
      by (auto simp: suppress_def NMSBoxes_with_def nms_rejects_def list_all_iff)
  next
    case nr: False
    with False have ok: "\<not> thr < 0" "list_all (\<lambda>b. length b = 4) (map bbox ds)"
      by (auto simp: nms_rejects_def list_all_iff)
    show ?thesis
    proof (cases "?kept = []")
      case True
      with m have "keep_greedy ov (4 / 10) [] (survivors thr ds) = []" by simp
      with True False nr ok show ?thesis by (simp add: suppress_def NMSBoxes_with_def)
    next
      case ne: False
      with False nr ok sel show ?thesis by (simp add: suppress_def NMSBoxes_with_def)
    qed
  qed
qed

text \<open>
  Claim C4. Re-running the suppression step on its own output returns that output
  unchanged, for every list of candidate detections, every threshold and every overlap
  measure: the output is already filtered and sorted, and each kept box was compared
  with exactly the boxes kept before it.
\<close>

theorem suppress_idempotent:
  assumes "suppress (NMSBoxes_with overlap) thr ds = Inr out"
  shows "suppress (NMSBoxes_with overlap) thr out = Inr out"
proof -
  from assms have nr: "\<not> nms_rejects thr ds"
    and out: "out = keep_greedy overlap (4 / 10) [] (survivors thr ds)"
    by (auto simp: suppress_keep_greedy split: if_splits)
  have sub: "set out \<subseteq> set ds"
    using keep_greedy_set[of overlap "4 / 10" "[]" "survivors thr ds"]
    by (auto simp: out survivors_def)
  have "\<not> nms_rejects thr out"
  proof (cases "out = []")
    case True
    then show ?thesis by (simp add: nms_rejects_def)
  next
    case False
    with sub have "ds \<noteq> []" by auto
    with nr sub show ?thesis by (auto simp: nms_rejects_def list_all_iff)
  qed
  then show ?thesis
    by (simp add: suppress_keep_greedy out keep_greedy_survivors_idem)
qed


lemmas nms_eval = suppress_def NMSBoxes_with_def GetMaxScoreIndex_def py_index_def
  rect_overlap_def rect_area_def rect_intersection_def Let_def upt_rec

theorem suppress_idempotent_witness:
  "suppress (NMSBoxes_with rect_overlap) (1 / 2) [det_low, det_high] = Inr [det_high] \<and>
   suppress (NMSBoxes_with rect_overlap) (1 / 2) [det_high] = Inr [det_high]"
proof -
  have run: "suppress (NMSBoxes_with rect_overlap) (1 / 2) [det_low, det_high] = Inr [det_high]"
    by (simp add: nms_eval det_low_def det_high_def)
  from suppress_idempotent [OF run] run show ?thesis by simp
qed

section \<open>Square normalisation\<close>

lemma crop_is_center_crop:
  "(if ncols f > nrows f
    then (let start_x = (ncols f - nrows f) div 2 in slice_cols f start_x (start_x + nrows f))
    else (let start_y = (nrows f - ncols f) div 2 in slice_rows f start_y (start_y + ncols f)))
   = center_crop f"
proof (cases "ncols f > nrows f")
  case True
  then have a: "(ncols f - nrows f) div 2 + nrows f \<le> ncols f" by linarith
  then have b: "(ncols f - nrows f) div 2 \<le> ncols f" by linarith
  from True a b show ?thesis
    by (simp add: slice_cols_def center_crop_def Let_def min_absorb1 min_absorb2)
next
  case False
  then have a: "(nrows f - ncols f) div 2 + ncols f \<le> nrows f" by linarith
  then have b: "(nrows f - ncols f) div 2 \<le> nrows f" by linarith
  from False a b show ?thesis
    by (simp add: slice_rows_def center_crop_def Let_def min_absorb1 min_absorb2)
qed

lemma resize_to_square_center_crop:
  "resize_to_square rt f target = cv2_resize rt (center_crop f) (target, target)"
  using crop_is_center_crop[of f] by (auto simp: resize_to_square_def Let_def split: if_splits)

text \<open>
  Claim C5, as the code has it. For every frame with at least one row and one column
  and every target size of at least 1, \<open>resize_to_square\<close> returns a frame of exactly
  \<open>target \<times> target\<close>: the resize of the centred square of side \<open>min w h\<close>, whichever
  of width and height is the larger.
\<close>

theorem resize_to_square_exact:
  assumes "1 \<le> ncols f" and "1 \<le> nrows f" and "1 \<le> target"
  shows "\<exists>r. resize_to_square rt f target = Inr r \<and>
             int (nrows r) = target \<and> int (ncols r) = target \<and>
             cv2_resize rt (center_crop f) (target, target) = Inr r \<and>
             nrows (center_crop f) = min (nrows f) (ncols f) \<and>
             ncols (center_crop f) = min (nrows f) (ncols f)"
  using assms
  by (simp add: resize_to_square_center_crop cv2_resize_def) (simp add: center_crop_def Let_def)

theorem resize_to_square_exact_witness:
  "\<exists>r. resize_to_square plain_runtime (gray_frame 640 480) 640 = Inr r \<and>
       int (nrows r) = 640 \<and> int (ncols r) = 640 \<and>
       nrows (center_crop (gray_frame 640 480)) = 480 \<and>
       ncols (center_crop (gray_frame 640 480)) = 480"
  using resize_to_square_exact [of "gray_frame 640 480" 640 plain_runtime]
  by (auto simp: gray_frame_def)

text \<open>
  Claim C5 as stated covers every target size; a target size of 0 is rejected by the
  resize and \<open>resize_to_square\<close> raises instead of returning a frame.
\<close>

theorem resize_to_square_zero_target_counterexample:
  "resize_to_square plain_runtime (gray_frame 640 480) 0 = Inl CvError"
  by (simp add: resize_to_square_def cv2_resize_def gray_frame_def slice_cols_def Let_def)


section \<open>Capturing an image\<close>

text \<open>
  Claim C8. \<open>capture_image\<close> never raises: in every state and for every behaviour of
  the library calls it returns a result dictionary, which is one of the three failure
  dictionaries (success flag false, with its message) or the success dictionary.
\<close>

theorem capture_image_never_raises:
  "\<exists>r. capture_image rt cam filename apply_detection = Inr r \<and>
       (r = failed_capture ''No frame available'' \<or>
        r = failed_capture ''Failed to save image'' \<or>
        (\<exists>e. r = failed_capture (''Capture error: '' @ str_of_error e)) \<or>
        (\<exists>name path img.
           success r \<and> message r = ''Image saved as '' @ name \<and> filepath r = Some path \<and>
           base64_image r = Some img))"
  by (auto simp: capture_image_def capture_image_body_def Let_def
           split: option.splits sum.splits if_splits)

lemmas capture_eval =
  capture_image_def capture_image_body_def get_current_frame_def publish_frame_def
  CameraService_init_def plain_runtime_def gray_frame_def resize_to_square_center_crop
  center_crop_def cv2_resize_def apply_detection_step_def frame_to_base64_def Let_def

theorem capture_image_never_raises_witness:
  "capture_image plain_runtime (CameraService_init True) None True
     = Inr (failed_capture ''No frame available'') \<and>
   \<not> success (failed_capture ''No frame available'') \<and>
   message (failed_capture ''No frame available'') = ''No frame available''"
  using capture_image_never_raises [of plain_runtime "CameraService_init True" None True]
  by (simp add: capture_eval failed_capture_def)


lemma resize_to_square_640:
  assumes "resize_to_square rt frame 640 = Inr square"
  shows "nrows square = 640 \<and> ncols square = 640"
  using assms by (auto simp: resize_to_square_center_crop cv2_resize_def split: if_splits)

text \<open>
  Claim C9, as the code has it. With no loaded model, a successful \<open>capture_image\<close>
  carries the fabricated \<open>test_defect\<close> detection and the frame with the placeholder
  rectangle and label drawn on it exactly when \<open>apply_detection\<close> (default \<open>True\<close>) and
  \<open>detection_enabled\<close> (initially \<open>True\<close>) both hold; otherwise it carries no detection
  results.
\<close>

theorem capture_image_placeholder:
  assumes "\<not> defect_detector cam"
    and "capture_image rt cam filename apply_detection = Inr r"
    and "success r"
  shows "\<exists>frame square.
           current_frame cam = Some frame \<and> resize_to_square rt frame 640 = Inr square \<and>
           detection_results r =
             (if apply_detection \<and> detection_enabled cam
              then Some (DetectionData
                           [TestDetection ''test_defect'' (9 / 10) [160, 160, 480, 480]] 1
                           (putText rt (rectangle rt square (160, 160) (480, 480) (0, 255, 0) 2)
                              ''TEST DETECTION'' (160, 150) (7 / 10) (0, 255, 0) 2))
              else None)"
proof -
  from assms(2,3) obtain frame square where
    f: "current_frame cam = Some frame" and sq: "resize_to_square rt frame 640 = Inr square"
    and dr: "detection_results r = snd (apply_detection_step rt cam apply_detection square)"
    by (auto simp: capture_image_def capture_image_body_def get_current_frame_def Let_def
          failed_capture_def split: option.splits sum.splits if_splits)
  from resize_to_square_640[OF sq] assms(1) dr
  have "detection_results r =
             (if apply_detection \<and> detection_enabled cam
              then Some (DetectionData
                           [TestDetection ''test_defect'' (9 / 10) [160, 160, 480, 480]] 1
                           (putText rt (rectangle rt square (160, 160) (480, 480) (0, 255, 0) 2)
                              ''TEST DETECTION'' (160, 150) (7 / 10) (0, 255, 0) 2))
              else None)"
    by (simp add: apply_detection_step_def Let_def)
  with f sq show ?thesis by blast
qed

theorem capture_image_placeholder_witness:
  "\<not> defect_detector camera_without_model \<and>
   (\<exists>r square.
      capture_image plain_runtime camera_without_model None True = Inr r \<and> success r \<and>
      detection_results r =
        Some (DetectionData [TestDetection ''test_defect'' (9 / 10) [160, 160, 480, 480]] 1
                (putText plain_runtime
                   (rectangle plain_runtime square (160, 160) (480, 480) (0, 255, 0) 2)
                   ''TEST DETECTION'' (160, 150) (7 / 10) (0, 255, 0) 2)))"
proof -
  have nd: "\<not> defect_detector camera_without_model"
    by (simp add: camera_without_model_def publish_frame_def CameraService_init_def)
  have en: "detection_enabled camera_without_model"
    by (simp add: camera_without_model_def publish_frame_def CameraService_init_def)
  have "\<exists>r. capture_image plain_runtime camera_without_model None True = Inr r \<and> success r"
    by (simp add: camera_without_model_def capture_eval)
  then obtain r where run: "capture_image plain_runtime camera_without_model None True = Inr r"
    and ok: "success r" by blast
  from capture_image_placeholder [OF nd run ok] en nd run ok show ?thesis by auto
qed

text \<open>
  Claim C9 as stated fails: with the default arguments and no loaded model, the capture
  returns the fabricated \<open>test_defect\<close> detection.
\<close>

theorem capture_image_fabricates_counterexample:
  "result_detections (capture_image plain_runtime camera_without_model None True) =
     [TestDetection ''test_defect'' (9 / 10) [160, 160, 480, 480]]"
  by (simp add: result_detections_def camera_without_model_def capture_eval)

section \<open>Detection analysis\<close>

lemma count_defects_eq:
  "count_defects m ds c =
     (if c \<in> set (map entry_class_name ds)
      then Some ((case m c of None \<Rightarrow> 0 | Some k \<Rightarrow> k) + count_list (map entry_class_name ds) c)
      else m c)"
  by (induction ds arbitrary: m) auto

text \<open>
  Claim C10. For every successful capture whose detection results hold a detections
  list, \<open>capture_with_detection_analysis\<close> adds an analysis whose \<open>total_defects\<close> is the
  length of the list, whose \<open>defects_by_type\<close> maps each class name to its number of
  occurrences (and no other key), and whose \<open>has_critical_defects\<close> holds iff some
  detection has confidence above 0.8.
\<close>

theorem capture_with_detection_analysis_summary:
  assumes "capture_image rt cam filename True = Inr result"
    and "success result"
    and "detection_results result = Some (DetectionData dets n img)"
  shows "\<exists>a. capture_with_detection_analysis rt cam filename = Inr (result\<lparr>analysis := Some a\<rparr>) \<and>
             total_defects a = length dets \<and>
             (\<forall>c. defects_by_type a c =
                    (if c \<in> set (map entry_class_name dets)
                     then Some (count_list (map entry_class_name dets) c) else None)) \<and>
             (has_critical_defects a \<longleftrightarrow> (\<exists>d \<in> set dets. 8 / 10 < entry_confidence d))"
proof -
  let ?a = "\<lparr>total_defects = length dets, defects_by_type = count_defects Map.empty dets,
             has_critical_defects = list_ex (\<lambda>d. 8 / 10 < entry_confidence d) dets\<rparr>"
  have run: "capture_with_detection_analysis rt cam filename = Inr (result\<lparr>analysis := Some ?a\<rparr>)"
    using assms by (simp add: capture_with_detection_analysis_def)
  have by_type: "defects_by_type ?a c =
         (if c \<in> set (map entry_class_name dets)
          then Some (count_list (map entry_class_name dets) c) else None)" for c
    by (simp add: count_defects_eq)
  have crit: "has_critical_defects ?a \<longleftrightarrow> (\<exists>d \<in> set dets. 8 / 10 < entry_confidence d)"
    by (simp add: list_ex_iff)
  from run by_type crit show ?thesis by (intro exI[of _ ?a]) simp
qed


lemma one_box_output_decoded:
  "postprocess_detections NMSBoxes [one_box_output] (640, 640) (640, 640) (1 / 2)
     = Inr [one_box_detection]"
  by (simp add: decode_eval one_box_output_def one_box_detection_def)

lemma camera_with_model_detects:
  "\<exists>img. apply_detection_step plain_runtime camera_with_model True
           \<lparr>nrows = 640, ncols = 640, pixel = p\<rparr>
         = (img, Some (DetectionData [ModelDetection one_box_detection] 1 img))"
proof -
  have "\<exists>img. detect_defects_from_frame plain_runtime \<lparr>nrows = 640, ncols = 640, pixel = p\<rparr> (1 / 2)
          = Inr (img, [one_box_detection])"
    using one_box_output_decoded
    by (simp add: detect_defects_from_frame_def plain_runtime_def cv2_resize_def Let_def
          draw_one_def one_box_detection_def)
  then show ?thesis
    by (auto simp: apply_detection_step_def camera_with_model_def publish_frame_def
          CameraService_init_def)
qed

lemma camera_with_model_captures:
  "\<exists>result img. capture_image plain_runtime camera_with_model None True = Inr result \<and>
      success result \<and>
      detection_results result = Some (DetectionData [ModelDetection one_box_detection] 1 img)"
proof -
  let ?sq = "\<lparr>nrows = 640, ncols = 640,
              pixel = interpolate plain_runtime (center_crop (gray_frame 640 480)) 640 640\<rparr>"
  have sq: "resize_to_square plain_runtime (gray_frame 640 480) 640 = Inr ?sq"
    by (simp add: resize_to_square_center_crop cv2_resize_def center_crop_def gray_frame_def)
  from camera_with_model_detects obtain img where
    st: "apply_detection_step plain_runtime camera_with_model True ?sq
           = (img, Some (DetectionData [ModelDetection one_box_detection] 1 img))" by blast
  have cf: "get_current_frame camera_with_model = Some (gray_frame 640 480)"
    by (simp add: get_current_frame_def camera_with_model_def publish_frame_def)
  have io: "makedirs plain_runtime d = None" "imwrite plain_runtime path f = Inr True" for d path f
    by (simp_all add: plain_runtime_def)
  show ?thesis
    unfolding capture_image_def capture_image_body_def cf
    by (simp add: io sq st Let_def)
qed

theorem capture_with_detection_analysis_summary_witness:
  "\<exists>result a.
     capture_image plain_runtime camera_with_model None True = Inr result \<and> success result \<and>
     capture_with_detection_analysis plain_runtime camera_with_model None
       = Inr (result\<lparr>analysis := Some a\<rparr>) \<and>
     total_defects a = 1 \<and> defects_by_type a ''short_circuit'' = Some 1 \<and>
     defects_by_type a ''scratch'' = None \<and> has_critical_defects a"
proof -
  from camera_with_model_captures obtain result img where
    run: "capture_image plain_runtime camera_with_model None True = Inr result"
    and ok: "success result"
    and dr: "detection_results result = Some (DetectionData [ModelDetection one_box_detection] 1 img)"
    by blast
  from capture_with_detection_analysis_summary [OF run ok dr] obtain a where
    a: "capture_with_detection_analysis plain_runtime camera_with_model None
          = Inr (result\<lparr>analysis := Some a\<rparr>)"
      "total_defects a = length [ModelDetection one_box_detection]"
      "\<forall>c. defects_by_type a c =
            (if c \<in> set (map entry_class_name [ModelDetection one_box_detection])
             then Some (count_list (map entry_class_name [ModelDetection one_box_detection]) c)
             else None)"
      "has_critical_defects a \<longleftrightarrow>
         (\<exists>d \<in> set [ModelDetection one_box_detection]. 8 / 10 < entry_confidence d)"
    by blast
  from a(3) have "defects_by_type a ''short_circuit'' = Some 1"
    and "defects_by_type a ''scratch'' = None"
    by (simp_all add: one_box_detection_def)
  moreover from a(4) have "has_critical_defects a" by (simp add: one_box_detection_def)
  ultimately show ?thesis using run ok a(1,2) by auto
qed

section \<open>One broadcast pass\<close>

lemma broadcast_sends_result:
  "broadcast_sends tr text conns m disc =
     (m\<lparr>send_calls := send_calls m @ map (\<lambda>ws. (ws, text)) conns\<rparr>,
      foldl (\<lambda>d ws. if send_raises tr ws then set_add ws d else d) disc conns)"
  by (induction conns arbitrary: m disc) simp_all

lemma collected_set:
  "set (foldl (\<lambda>d ws. if send_raises tr ws then set_add ws d else d) disc conns)
     = set disc \<union> {ws \<in> set conns. send_raises tr ws}"
  by (induction conns arbitrary: disc) (auto simp: set_add_def)

lemma discard_all:
  "foldl (\<lambda>conns ws. set_discard ws conns) conns disc = filter (\<lambda>ws. ws \<notin> set disc) conns"
proof (induction disc arbitrary: conns)
  case Nil
  then show ?case by simp
next
  case (Cons d disc)
  have "removeAll d conns = filter (\<lambda>ws. ws \<noteq> d) conns"
    by (induction conns) auto
  then show ?case using Cons.IH[of "removeAll d conns"]
    by (simp add: set_discard_def)
qed

text \<open>
  Claim C6. In one pass of \<open>broadcast\<close> the same text \<open>dumps msg\<close>, computed once, is
  sent to every connection registered when the pass starts, in one \<open>send_text\<close> call
  each; the loop over the copy leaves the registry as it was and collects exactly the
  connections whose send raised; after the loop the registry is the old one without
  those connections.
\<close>

theorem broadcast_pass:
  "send_calls (broadcast tr m msg)
     = send_calls m @ map (\<lambda>ws. (ws, dumps tr msg)) (active_connections m) \<and>
   active_connections (fst (broadcast_sends tr (dumps tr msg) (active_connections m) m []))
     = active_connections m \<and>
   set (snd (broadcast_sends tr (dumps tr msg) (active_connections m) m []))
     = {ws \<in> set (active_connections m). send_raises tr ws} \<and>
   active_connections (broadcast tr m msg)
     = filter (\<lambda>ws. \<not> send_raises tr ws) (active_connections m)"
proof -
  let ?disc = "foldl (\<lambda>d ws. if send_raises tr ws then set_add ws d else d) [] (active_connections m)"
  have d: "set ?disc = {ws \<in> set (active_connections m). send_raises tr ws}"
    by (simp add: collected_set)
  have f: "filter (\<lambda>ws. ws \<notin> set ?disc) (active_connections m)
             = filter (\<lambda>ws. \<not> send_raises tr ws) (active_connections m)"
    unfolding d by (rule filter_cong) auto
  show ?thesis
    using d f by (simp add: broadcast_def broadcast_sends_result discard_all Let_def)
qed

lemmas manager_eval =
  run_events_def connect_def disconnect_def run_scheduled_def start_streaming_def
  stop_streaming_def send_personal_message_def set_add_def set_discard_def
  WebSocketManager_init_def plain_transport_def quiescent_def Let_def

theorem broadcast_pass_witness:
  "send_calls (broadcast lossy_transport three_clients (CameraStatus 0))
     = send_calls three_clients
         @ [(1, ''camera_status''), (2, ''camera_status''), (3, ''camera_status'')] \<and>
   active_connections (broadcast lossy_transport three_clients (CameraStatus 0)) = [1, 3]"
  using broadcast_pass [of lossy_transport three_clients "CameraStatus 0"]
  by (simp add: three_clients_def lossy_transport_def manager_eval)

section \<open>The waiting status of the stream loop\<close>

lemma pred_mod_10: "(n::nat) mod 10 = 0 \<Longrightarrow> n \<noteq> 0 \<Longrightarrow> (n - 1) mod 10 = 9"
  by (cases n) (auto simp: mod_Suc split: if_splits)

lemma succ_mod_10: "(n::nat) mod 10 \<noteq> 0 \<Longrightarrow> n mod 10 = (n - 1) mod 10 + 1"
  by (cases n) (auto simp: mod_Suc split: if_splits)

lemma push_iff: "((n::nat) + 1) mod 10 = 1 \<longleftrightarrow> n mod 10 = 0"
  by (auto simp: mod_Suc split: if_splits)

lemma waiting_inv_bound:
  assumes "waiting_inv s" and "current_frame (camera s) = None"
  shows "length (waiting_times (pushed s)) * 10 \<le> camera_wait_count s + 9"
proof (cases "camera_wait_count s = 0")
  case True
  with assms show ?thesis by (simp add: waiting_inv_def)
next
  case False
  with assms have "10 * length (waiting_times (pushed s)) + (camera_wait_count s - 1) mod 10
              = camera_wait_count s + 9" by (simp add: waiting_inv_def)
  then show ?thesis by linarith
qed

lemma waiting_times_append:
  "waiting_times (ms @ ns) = waiting_times ms @ waiting_times ns"
  by (induction ms rule: waiting_times.induct) simp_all

lemma camera_after_Some:
  "current_frame cam \<noteq> None \<Longrightarrow> current_frame (camera_after c cam) \<noteq> None"
  by (simp add: camera_after_def publish_frame_def split: option.splits)

lemma stream_cycle_no_frame:
  assumes "stream_cycle rt j c s = Inr s'" and "current_frame (camera_after c (camera s)) = None"
  shows "camera s' = camera s \<and> current_frame (camera s) = None \<and>
         camera_wait_count s' = camera_wait_count s + 1 \<and>
         clock s' = clock s + 100 + overrun c \<and>
         pushed s' = pushed s @ (if (camera_wait_count s + 1) mod 10 = 1
                                 then [CameraStatus (clock s)] else [])"
  using assms
  by (auto simp: stream_cycle_def camera_after_def Let_def push_def sleep_tenth_def
        get_current_frame_def publish_frame_def split: option.splits)

lemma stream_cycle_frame:
  assumes "stream_cycle rt j c s = Inr s'" and "current_frame (camera_after c (camera s)) \<noteq> None"
  shows "current_frame (camera s') \<noteq> None \<and>
         waiting_times (pushed s') = waiting_times (pushed s)"
  using assms
  by (auto simp: stream_cycle_def camera_after_def Let_def push_def sleep_tenth_def
        get_current_frame_def publish_frame_def waiting_times_append
        split: option.splits sum.splits if_splits)

lemma stream_cycle_inv:
  assumes "stream_cycle rt j c s = Inr s'" and "waiting_inv s"
  shows "waiting_inv s'"
proof (cases "current_frame (camera_after c (camera s)) = None")
  case False
  from stream_cycle_frame[OF assms(1) False] assms(2) show ?thesis
    by (auto simp: waiting_inv_def)
next
  case True
  note st = stream_cycle_no_frame[OF assms(1) True]
  define n where "n = camera_wait_count s"
  define ts where "ts = waiting_times (pushed s)"
  define d where "d = (n - 1) mod 10"
  from st have nf: "current_frame (camera s) = None" by simp
  from assms(2) have sp: "sorted_wrt (\<lambda>a b. a + 1000 \<le> b) ts"
    by (simp add: waiting_inv_def ts_def)
  from assms(2) nf have zero: "n = 0 \<Longrightarrow> ts = []"
    by (simp add: waiting_inv_def ts_def n_def)
  from assms(2) nf have len: "0 < n \<Longrightarrow> 10 * length ts + d = n + 9"
    by (simp add: waiting_inv_def ts_def n_def d_def)
  from assms(2) nf have old: "0 < n \<Longrightarrow> \<forall>t \<in> set ts. t + 100 * (d + 1) \<le> clock s"
    by (simp add: waiting_inv_def ts_def n_def d_def)
  have cam': "current_frame (camera s') = None" using st by simp
  have n': "camera_wait_count s' = n + 1" using st by (simp add: n_def)
  have c': "clock s' = clock s + 100 + overrun c" using st by simp
  show ?thesis
  proof (cases "(n + 1) mod 10 = 1")
    case push: True
    then have m: "n mod 10 = 0" using push_iff[of n] by blast
    have ts': "waiting_times (pushed s') = ts @ [clock s]"
      using st push by (simp add: waiting_times_append ts_def n_def)
    have d9: "0 < n \<Longrightarrow> d = 9" using m pred_mod_10[of n] by (simp add: d_def)
    have far: "\<forall>t \<in> set ts. t + 1000 \<le> clock s"
    proof (cases "n = 0")
      case True
      with zero show ?thesis by simp
    next
      case False
      with old d9 show ?thesis by simp
    qed
    have d': "(n + 1 - 1) mod 10 = 0" using m by simp
    have l': "10 * length (ts @ [clock s]) + (n + 1 - 1) mod 10 = n + 1 + 9"
    proof (cases "n = 0")
      case True
      with zero show ?thesis by simp
    next
      case False
      with len d9 d' show ?thesis by simp
    qed
    have near: "\<forall>t \<in> set (ts @ [clock s]). t + 100 * ((n + 1 - 1) mod 10 + 1) \<le> clock s'"
      using far unfolding d' c' by fastforce
    have sp': "sorted_wrt (\<lambda>a b. a + 1000 \<le> b) (ts @ [clock s])"
      using sp far by (simp add: sorted_wrt_append)
    show ?thesis
      unfolding waiting_inv_def ts' n' using sp' l' near by simp
  next
    case quiet: False
    then have m: "n mod 10 \<noteq> 0" using push_iff[of n] by blast
    have pos: "0 < n"
    proof (rule ccontr)
      assume "\<not> 0 < n"
      then have "n = 0" by simp
      with m show False by simp
    qed
    have ts': "waiting_times (pushed s') = ts"
      using st quiet by (simp add: ts_def n_def)
    have d': "(n + 1 - 1) mod 10 = d + 1" using succ_mod_10[OF m] by (simp add: d_def)
    have l': "10 * length ts + (n + 1 - 1) mod 10 = n + 1 + 9"
      using len[OF pos] unfolding d' by simp
    have near: "\<forall>t \<in> set ts. t + 100 * ((n + 1 - 1) mod 10 + 1) \<le> clock s'"
      using old[OF pos] unfolding d' c' by fastforce
    show ?thesis
      unfolding waiting_inv_def ts' n' using sp l' near by simp
  qed
qed

lemma stream_cycles_inv:
  "waiting_inv s \<Longrightarrow> waiting_inv (stream_cycles rt j cs s)"
proof (induction cs arbitrary: s)
  case Nil
  then show ?case by simp
next
  case (Cons c cs)
  show ?case
  proof (cases "stream_cycle rt j c s")
    case (Inl e)
    with Cons.prems show ?thesis by simp
  next
    case (Inr s')
    have "waiting_inv s'" using Inr Cons.prems by (rule stream_cycle_inv)
    with Inr Cons.IH[of s'] Cons.prems show ?thesis by simp
  qed
qed

lemma stream_cycles_frame:
  "current_frame (camera s) \<noteq> None \<Longrightarrow>
   waiting_times (pushed (stream_cycles rt j cs s)) = waiting_times (pushed s)"
proof (induction cs arbitrary: s)
  case Nil
  then show ?case by simp
next
  case (Cons c cs)
  show ?case
  proof (cases "stream_cycle rt j c s")
    case (Inl e)
    then show ?thesis by simp
  next
    case (Inr s')
    from stream_cycle_frame[OF Inr camera_after_Some[OF Cons.prems]] Cons.IH[of s'] Inr
    show ?thesis by simp
  qed
qed

lemma stream_cycles_count:
  assumes "waiting_inv s" and "current_frame (camera s) = None"
  shows "length (waiting_times (pushed (stream_cycles rt j cs s))) * 10
           \<le> camera_wait_count s + length cs + 9"
  using assms
proof (induction cs arbitrary: s)
  case Nil
  then show ?case using waiting_inv_bound by simp
next
  case (Cons c cs)
  from Cons.prems have base: "length (waiting_times (pushed s)) * 10 \<le> camera_wait_count s + 9"
    by (rule waiting_inv_bound)
  show ?case
  proof (cases "stream_cycle rt j c s")
    case (Inl e)
    with base show ?thesis by simp
  next
    case (Inr s')
    have inv': "waiting_inv s'" using Inr Cons.prems(1) by (rule stream_cycle_inv)
    show ?thesis
    proof (cases "current_frame (camera_after c (camera s)) = None")
      case True
      note st = stream_cycle_no_frame[OF Inr True]
      with Cons.prems have "current_frame (camera s') = None" by simp
      from Cons.IH[OF inv' this] st Inr base show ?thesis by simp
    next
      case False
      from stream_cycle_frame[OF Inr False] stream_cycles_frame[of s' rt j cs] Inr base
      show ?thesis by simp
    qed
  qed
qed

text \<open>
  Claim C7. In every run of \<open>_stream_loop\<close>, whatever the capture thread publishes and
  whenever, whichever sends fail, whatever other coroutines do to the manager and
  however long the cycles take, the timestamps of any two \<open>waiting\<close> messages the loop
  pushes are at least 1000 ms apart, and over \<open>n\<close> cycles the loop pushes at most
  \<open>(n + 9) div 10\<close> of them: never one on every cycle.
\<close>

theorem waiting_at_most_once_per_second:
  "sorted_wrt (\<lambda>t t'. t + 1000 \<le> t')
     (waiting_times (pushed (stream_loop rt to_json cycles m cam t0))) \<and>
   length (waiting_times (pushed (stream_loop rt to_json cycles m cam t0))) * 10
     \<le> length cycles + 9"
proof -
  let ?s0 = "\<lparr>mgr = m, camera = cam, camera_wait_count = 0, clock = t0, pushed = []\<rparr>"
  have inv0: "waiting_inv ?s0" by (simp add: waiting_inv_def)
  have a: "sorted_wrt (\<lambda>t t'. t + 1000 \<le> t') (waiting_times (pushed (stream_cycles rt to_json cycles ?s0)))"
    using stream_cycles_inv[OF inv0] by (simp add: waiting_inv_def)
  have b: "length (waiting_times (pushed (stream_cycles rt to_json cycles ?s0))) * 10 \<le> length cycles + 9"
  proof (cases "current_frame cam = None")
    case True
    with stream_cycles_count[OF inv0, of rt to_json cycles] show ?thesis by simp
  next
    case False
    with stream_cycles_frame[of ?s0 rt to_json cycles] show ?thesis by simp
  qed
  from a b show ?thesis by (simp add: stream_loop_def)
qed

lemmas stream_eval =
  stream_loop_def stream_cycle_def push_def sleep_tenth_def broadcast_def
  get_current_frame_def CameraService_init_def idle_cycle_def Let_def

theorem waiting_at_most_once_per_second_witness:
  "waiting_times
     (pushed (stream_loop plain_runtime (dumps plain_transport) eleven_idle_cycles
                one_client_streaming (CameraService_init False) 0))
     = [0, 1000]"
  using waiting_at_most_once_per_second
          [of plain_runtime "dumps plain_transport" eleven_idle_cycles one_client_streaming
              "CameraService_init False" 0]
  by (simp add: eleven_idle_cycles_def one_client_streaming_def stream_eval manager_eval)

section \<open>Detaching the last connection\<close>

text \<open>
  Claim C2, as the code has it. When \<open>disconnect\<close> empties the registry of a quiescent
  manager it returns having only scheduled \<open>stop_streaming\<close>: the streaming flag and
  the loop task are as before. The transition to idle happens when the event loop runs
  the scheduled coroutine, which clears the flag and cancels and awaits the loop task.
\<close>

theorem disconnect_last_only_schedules:
  assumes "set_discard ws (active_connections m) = []" and "quiescent m"
  shows "disconnect m ws = m\<lparr>active_connections := [], scheduled := [StopStreaming]\<rparr> \<and>
         is_streaming (disconnect m ws) = is_streaming m \<and>
         loop_tasks (disconnect m ws) = loop_tasks m \<and>
         run_scheduled (disconnect m ws)
           = stop_streaming (m\<lparr>active_connections := [], scheduled := []\<rparr>) \<and>
         \<not> is_streaming (run_scheduled (disconnect m ws)) \<and>
         (\<forall>t. is_streaming m \<and> stream_task m = Some t \<and> t < length (loop_tasks m)
              \<longrightarrow> loop_tasks (run_scheduled (disconnect m ws)) ! t = Done)"
  using assms
  by (auto simp: disconnect_def run_scheduled_def stop_streaming_def quiescent_def Let_def
        split: option.splits)

theorem disconnect_last_only_schedules_witness:
  "set_discard 1 (active_connections one_client_streaming) = [] \<and>
   quiescent one_client_streaming \<and>
   is_streaming one_client_streaming \<and>
   stream_task one_client_streaming = Some 0 \<and>
   is_streaming (disconnect one_client_streaming 1) \<and>
   loop_tasks (disconnect one_client_streaming 1) = [Running] \<and>
   \<not> is_streaming (run_scheduled (disconnect one_client_streaming 1)) \<and>
   loop_tasks (run_scheduled (disconnect one_client_streaming 1)) ! 0 = Done"
proof -
  have a: "set_discard 1 (active_connections one_client_streaming) = []"
    and q: "quiescent one_client_streaming"
    and s: "is_streaming one_client_streaming"
    and t: "stream_task one_client_streaming = Some 0"
    and l: "loop_tasks one_client_streaming = [Running]"
    by (simp_all add: one_client_streaming_def manager_eval)
  note th = disconnect_last_only_schedules [OF a q]
  have c1: "is_streaming (disconnect one_client_streaming 1)"
    using th s by blast
  have c2: "loop_tasks (disconnect one_client_streaming 1) = [Running]"
    using th[THEN conjunct2, THEN conjunct2, THEN conjunct1] l by (simp only:)
  have c3: "\<not> is_streaming (run_scheduled (disconnect one_client_streaming 1))"
    using th by blast
  have "is_streaming one_client_streaming \<and> stream_task one_client_streaming = Some 0 \<and>
        0 < length (loop_tasks one_client_streaming)"
    using s t l by simp
  with th have c4: "loop_tasks (run_scheduled (disconnect one_client_streaming 1)) ! 0 = Done"
    by blast
  from a q s t c1 c2 c3 c4 show ?thesis by blast
qed

text \<open>
  Claim C2 as stated fails: after the only client has connected and disconnected,
  \<open>disconnect\<close> has returned, the registry is empty, and the manager still streams with
  its loop task running and the stop only scheduled.
\<close>

theorem disconnect_returns_while_streaming_counterexample:
  "active_connections
     (run_events plain_transport [Connect 1 ''a'', Disconnect 1] WebSocketManager_init) = [] \<and>
   is_streaming
     (run_events plain_transport [Connect 1 ''a'', Disconnect 1] WebSocketManager_init) \<and>
   loop_tasks
     (run_events plain_transport [Connect 1 ''a'', Disconnect 1] WebSocketManager_init)
     = [Running] \<and>
   scheduled
     (run_events plain_transport [Connect 1 ''a'', Disconnect 1] WebSocketManager_init)
     = [StopStreaming]"
  by (simp add: manager_eval)

section \<open>Attach and detach as a state machine\<close>

text \<open>
  When every scheduled stop runs before the next operation, the manager stays
  consistent, streaming starts exactly when the first connection attaches and stops
  exactly when the last one detaches, and attaching a registered connection or
  detaching an unregistered one leaves the registry and the stream state as they were.
\<close>

lemma connect_consistent:
  assumes "consistent m"
  shows "consistent (apply_event tr m (Connect ws client_id))"
  using assms
  by (auto simp: consistent_def quiescent_def connect_def start_streaming_def
        send_personal_message_def set_add_def Let_def)

lemma detach_settled_consistent:
  assumes "consistent m"
  shows "consistent (detach_settled m ws)"
  using assms
  by (auto simp: consistent_def quiescent_def detach_settled_def disconnect_def
        run_scheduled_def stop_streaming_def set_discard_def Let_def split: option.splits)

lemma connect_transitions:
  assumes "consistent m" and "\<not> accept_raises tr ws"
  shows "log_lines (apply_event tr m (Connect ws client_id))
           = (if active_connections m = [] then log_lines m @ [StreamingStarted] else log_lines m)"
  using assms
  by (auto simp: consistent_def connect_def start_streaming_def send_personal_message_def Let_def)

lemma detach_settled_transitions:
  assumes "consistent m"
  shows "log_lines (detach_settled m ws)
           = (if active_connections m \<noteq> [] \<and> removeAll ws (active_connections m) = []
              then log_lines m @ [StreamingStopped] else log_lines m)"
  using assms
  by (auto simp: consistent_def quiescent_def detach_settled_def disconnect_def
        run_scheduled_def stop_streaming_def set_discard_def Let_def split: option.splits)

lemma connect_present_keeps_state:
  assumes "consistent m" and "ws \<in> set (active_connections m)"
  shows "apply_event tr m (Connect ws client_id) = m \<or>
         apply_event tr m (Connect ws client_id)
           = m\<lparr>send_calls := send_calls m @ [(ws, dumps tr (Connection client_id 0))]\<rparr>"
  using assms
  by (auto simp: consistent_def connect_def start_streaming_def send_personal_message_def
        set_add_def Let_def)

lemma detach_settled_absent_keeps_state:
  assumes "consistent m" and "ws \<notin> set (active_connections m)"
  shows "detach_settled m ws = m"
  using assms
  by (auto simp: consistent_def quiescent_def detach_settled_def disconnect_def
        run_scheduled_def stop_streaming_def set_discard_def Let_def)

text \<open>
  Claim C3 fails on the code when a client attaches between a \<open>disconnect\<close> that
  emptied the registry and the \<open>stop_streaming\<close> that it scheduled: \<open>connect\<close> finds
  the flag still set and starts nothing, then the scheduled stop clears the flag and
  cancels the loop. The state reached is quiescent, has client 2 registered, and does
  not stream; the log shows one start and one stop, none for client 2.
\<close>

theorem attach_before_scheduled_stop_leaves_client_idle:
  "quiescent
     (run_events plain_transport
        [Connect 1 ''a'', Disconnect 1, Connect 2 ''b'', RunScheduled] WebSocketManager_init) \<and>
   active_connections
     (run_events plain_transport
        [Connect 1 ''a'', Disconnect 1, Connect 2 ''b'', RunScheduled] WebSocketManager_init)
     = [2] \<and>
   \<not> is_streaming
     (run_events plain_transport
        [Connect 1 ''a'', Disconnect 1, Connect 2 ''b'', RunScheduled] WebSocketManager_init) \<and>
   loop_tasks
     (run_events plain_transport
        [Connect 1 ''a'', Disconnect 1, Connect 2 ''b'', RunScheduled] WebSocketManager_init)
     = [Done] \<and>
   log_lines
     (run_events plain_transport
        [Connect 1 ''a'', Disconnect 1, Connect 2 ''b'', RunScheduled] WebSocketManager_init)
     = [StreamingStarted, StreamingStopped]"
  by (simp add: manager_eval)

end
